theory Spec2Isabelle
  imports Complex_Main
begin

section \<open>Arrays, dtypes and errors\<close>

text \<open>
  The operator \<open>kottler\<close> of \<open>normal_integration/fourier/kottler.py\<close> works on arrays of an
  array-API backend. An array is modelled by its dtype tag, its shape and its elements, read
  through a multi-index. Elements are exact complex numbers: the rounding of floating-point
  arithmetic is not modelled, only which dtype an array carries.
\<close>

datatype dtype = Bool | SInt nat | UInt nat | Float nat | Complex nat

record ndarray =
  dtype :: dtype
  shape :: "nat list"
  elem :: "nat list \<Rightarrow> complex"

datatype error =
    ValueError string
  | ShapeError
  | ZeroDivisionError
  | IndexError

text \<open>A multi-index addresses an element of an array of shape \<open>s\<close> when it has one entry per
  axis, each below the extent of its axis.\<close>

definition in_range :: "nat list \<Rightarrow> nat list \<Rightarrow> bool" where
  "in_range idx s = list_all2 (\<lambda>i n. i < n) idx s"

subsection \<open>Dtype promotion (\<open>xp.result_type\<close>, \<open>xp.isdtype\<close>)\<close>

text \<open>The number of bits a floating type needs to hold every value of an integer type of the
  given width, as in numpy's promotion table.\<close>

definition float_bits_for_int :: "nat \<Rightarrow> nat" where
  "float_bits_for_int b = (if b \<le> 8 then 16 else if b \<le> 16 then 32 else 64)"

definition complex_bits_for_float :: "nat \<Rightarrow> nat" where
  "complex_bits_for_float b = (if b \<le> 32 then 64 else if b \<le> 64 then 128 else 256)"

fun result_type :: "dtype \<Rightarrow> dtype \<Rightarrow> dtype" where
  "result_type Bool t = t"
| "result_type t Bool = t"
| "result_type (SInt a) (SInt b) = SInt (max a b)"
| "result_type (UInt a) (UInt b) = UInt (max a b)"
| "result_type (SInt a) (UInt b) =
     (if b < a then SInt a else if 2 * b \<le> 64 then SInt (2 * b) else Float 64)"
| "result_type (UInt b) (SInt a) =
     (if b < a then SInt a else if 2 * b \<le> 64 then SInt (2 * b) else Float 64)"
| "result_type (SInt a) (Float b) = Float (max (float_bits_for_int a) b)"
| "result_type (UInt a) (Float b) = Float (max (float_bits_for_int a) b)"
| "result_type (Float b) (SInt a) = Float (max (float_bits_for_int a) b)"
| "result_type (Float b) (UInt a) = Float (max (float_bits_for_int a) b)"
| "result_type (Float a) (Float b) = Float (max a b)"
| "result_type (SInt a) (Complex b) =
     Complex (max (complex_bits_for_float (float_bits_for_int a)) b)"
| "result_type (UInt a) (Complex b) =
     Complex (max (complex_bits_for_float (float_bits_for_int a)) b)"
| "result_type (Complex b) (SInt a) =
     Complex (max (complex_bits_for_float (float_bits_for_int a)) b)"
| "result_type (Complex b) (UInt a) =
     Complex (max (complex_bits_for_float (float_bits_for_int a)) b)"
| "result_type (Float a) (Complex b) = Complex (max (complex_bits_for_float a) b)"
| "result_type (Complex b) (Float a) = Complex (max (complex_bits_for_float a) b)"
| "result_type (Complex a) (Complex b) = Complex (max a b)"

text \<open>\<open>xp.isdtype(dtype, "real floating")\<close>.\<close>

fun isdtype_real_floating :: "dtype \<Rightarrow> bool" where
  "isdtype_real_floating (Float b) = True"
| "isdtype_real_floating t = False"

text \<open>The dtype of a real array multiplied by or added to a Python complex scalar, and the
  dtype of the real part of a complex array.\<close>

fun complex_of_dtype :: "dtype \<Rightarrow> dtype" where
  "complex_of_dtype (Float b) = Complex (complex_bits_for_float b)"
| "complex_of_dtype (Complex b) = Complex b"
| "complex_of_dtype t = Complex 128"

fun real_of_dtype :: "dtype \<Rightarrow> dtype" where
  "real_of_dtype (Complex b) = Float (b div 2)"
| "real_of_dtype t = t"

subsection \<open>Broadcasting elementwise operations\<close>

text \<open>Shapes are aligned at their last axis; two extents are compatible when they are equal
  or one of them is 1. \<open>broadcast_rev\<close> works on the reversed shapes.\<close>

fun broadcast_rev :: "nat list \<Rightarrow> nat list \<Rightarrow> nat list option" where
  "broadcast_rev [] ys = Some ys"
| "broadcast_rev (x # xs) [] = Some (x # xs)"
| "broadcast_rev (x # xs) (y # ys) =
     (if x = y \<or> y = 1 then map_option ((#) x) (broadcast_rev xs ys)
      else if x = 1 then map_option ((#) y) (broadcast_rev xs ys)
      else None)"

definition broadcast_shapes :: "nat list \<Rightarrow> nat list \<Rightarrow> nat list option" where
  "broadcast_shapes s t = map_option rev (broadcast_rev (rev s) (rev t))"

text \<open>The index at which an operand of shape \<open>s\<close> is read for the element \<open>idx\<close> of the
  broadcast result: leading axes the operand lacks are dropped, axes of extent 1 read index 0.\<close>

definition bidx :: "nat list \<Rightarrow> nat list \<Rightarrow> nat list" where
  "bidx s idx = map2 (\<lambda>n i. if n = 1 then 0 else i) s (drop (length idx - length s) idx)"

definition binop ::
  "(complex \<Rightarrow> complex \<Rightarrow> complex) \<Rightarrow> ndarray \<Rightarrow> ndarray \<Rightarrow> error + ndarray" where
  "binop f a b =
     (case broadcast_shapes (shape a) (shape b) of
        None \<Rightarrow> Inl (ValueError ''operands could not be broadcast together'')
      | Some s \<Rightarrow>
          Inr \<lparr>dtype = result_type (dtype a) (dtype b), shape = s,
               elem = (\<lambda>idx. f (elem a (bidx (shape a) idx)) (elem b (bidx (shape b) idx)))\<rparr>)"

definition add_arr :: "ndarray \<Rightarrow> ndarray \<Rightarrow> error + ndarray" where
  "add_arr = binop (+)"

definition div_arr :: "ndarray \<Rightarrow> ndarray \<Rightarrow> error + ndarray" where
  "div_arr = binop (/)"

text \<open>A Python complex scalar times an array (\<open>1j * gy\<close>).\<close>

definition scalar_mul :: "complex \<Rightarrow> ndarray \<Rightarrow> ndarray" where
  "scalar_mul c a =
     \<lparr>dtype = complex_of_dtype (dtype a), shape = shape a, elem = (\<lambda>idx. c * elem a idx)\<rparr>"

text \<open>\<open>xp.astype(a, dtype, copy=False)\<close>: the dtype tag changes.\<close>

definition astype :: "ndarray \<Rightarrow> dtype \<Rightarrow> ndarray" where
  "astype a t = a\<lparr>dtype := t\<rparr>"

text \<open>\<open>a.real\<close>.\<close>

definition real_part :: "ndarray \<Rightarrow> ndarray" where
  "real_part a =
     \<lparr>dtype = real_of_dtype (dtype a), shape = shape a,
      elem = (\<lambda>idx. complex_of_real (Re (elem a idx)))\<rparr>"

text \<open>\<open>a[:, None]\<close> on a one-dimensional array: a column of shape \<open>(n, 1)\<close>.\<close>

definition as_column :: "ndarray \<Rightarrow> error + ndarray" where
  "as_column a =
     (case shape a of
        [n] \<Rightarrow> Inr \<lparr>dtype = dtype a, shape = [n, 1], elem = (\<lambda>idx. elem a [hd idx])\<rparr>
      | _ \<Rightarrow> Inl IndexError)"

text \<open>\<open>a[..., :y, :x]\<close>: the trailing two axes are cut to at most \<open>y\<close> and \<open>x\<close> entries, kept
  from index 0; an array with fewer than two axes has no such slice.\<close>

definition crop :: "ndarray \<Rightarrow> nat \<Rightarrow> nat \<Rightarrow> error + ndarray" where
  "crop a y x =
     (let s = shape a; n = length s in
      if n < 2 then Inl IndexError
      else Inr (a\<lparr>shape := take (n - 2) s @ [min y (s ! (n - 2)), min x (s ! (n - 1))]\<rparr>))"

subsection \<open>\<open>xp.fft.fftfreq\<close>\<close>

text \<open>\<open>fftfreq(n)\<close> with unit sample spacing computes \<open>1.0 / n\<close> first, which raises for
  \<open>n = 0\<close>; the entries are \<open>0, 1, ..., (n-1) div 2\<close> followed by \<open>-(n div 2), ..., -1\<close>, each
  divided by \<open>n\<close>.\<close>

definition fftfreq_val :: "nat \<Rightarrow> nat \<Rightarrow> real" where
  "fftfreq_val n k =
     (if k < (n - 1) div 2 + 1 then real k / real n else (real k - real n) / real n)"

definition fftfreq :: "nat \<Rightarrow> error + ndarray" where
  "fftfreq n =
     (if n = 0 then Inl ZeroDivisionError
      else Inr \<lparr>dtype = Float 64, shape = [n],
                elem = (\<lambda>idx. complex_of_real (fftfreq_val n (hd idx)))\<rparr>)"

section \<open>Collaborators of the operator\<close>

text \<open>The trailing two entries of a multi-index or shape, and what precedes them.\<close>

definition lead :: "nat list \<Rightarrow> nat list" where
  "lead idx = take (length idx - 2) idx"

definition row :: "nat list \<Rightarrow> nat" where
  "row idx = idx ! (length idx - 2)"

definition col :: "nat list \<Rightarrow> nat" where
  "col idx = idx ! (length idx - 1)"

text \<open>
  Modelled from the spec: \<open>check_shapes\<close> of \<open>mbipy.src.normal_integration.utils\<close> is not
  part of the sources at hand. It returns the common (height, width) of the two gradient
  inputs, which have identical shape \<open>(..., y, x)\<close>, and fails with a shape error otherwise.
\<close>

definition check_shapes :: "ndarray \<Rightarrow> ndarray \<Rightarrow> error + nat \<times> nat" where
  "check_shapes a b =
     (if shape a = shape b \<and> 2 \<le> length (shape a)
      then Inr (row (shape a), col (shape a))
      else Inl ShapeError)"

text \<open>
  Modelled from the spec: \<open>antisym\<close> of \<open>mbipy.src.normal_integration.padding\<close> is not part
  of the sources at hand. Given two fields of shape \<open>(..., y, x)\<close> it returns two fields of
  shape \<open>(..., 2y, 2x)\<close>, each the original extended by antisymmetric reflection, the padding
  appended on the high-index side of each axis. The reflection convention chosen here mirrors
  about the boundary edge and negates each component along its own direction; fields with
  fewer than two axes are outside its contract.
\<close>

definition reflect :: "nat \<Rightarrow> nat \<Rightarrow> nat" where
  "reflect n i = (if i < n then i else 2 * n - 1 - i)"

definition antisym_field :: "bool \<Rightarrow> ndarray \<Rightarrow> ndarray" where
  "antisym_field vertical g =
     (let y = row (shape g); x = col (shape g) in
      \<lparr>dtype = dtype g, shape = lead (shape g) @ [2 * y, 2 * x],
       elem = (\<lambda>idx.
         (if (if vertical then y \<le> row idx else x \<le> col idx) then - 1 else 1) *
         elem g (lead idx @ [reflect y (row idx), reflect x (col idx)]))\<rparr>)"

definition antisym :: "ndarray \<Rightarrow> ndarray \<Rightarrow> error + ndarray \<times> ndarray" where
  "antisym gy gx =
     (if length (shape gy) < 2 \<or> length (shape gx) < 2 then Inl IndexError
      else Inr (antisym_field True gy, antisym_field False gx))"

text \<open>
  Modelled from the spec: \<open>get_dfts\<close> of \<open>mbipy.src.normal_integration.utils\<close> is not part
  of the sources at hand. It hands out the forward and the inverse two-dimensional discrete
  Fourier transform over the last two axes, batched over the leading axes; the worker count
  is a parallelism hint that does not enter the values. An array with fewer than two axes
  has no such transform.
\<close>

definition dft2_sum :: "real \<Rightarrow> ndarray \<Rightarrow> nat list \<Rightarrow> complex" where
  "dft2_sum sg a idx =
     (let ny = row (shape a); nx = col (shape a) in
      (\<Sum>m<ny. \<Sum>n<nx.
         elem a (lead idx @ [m, n]) *
         cis (sg * 2 * pi * (real (row idx) * real m / real ny
                               + real (col idx) * real n / real nx))))"

type_synonym transform = "ndarray \<Rightarrow> int option \<Rightarrow> error + ndarray"

definition backend_fft2 :: transform where
  "backend_fft2 a workers =
     (if length (shape a) < 2 then Inl (ValueError ''axes exceeds dimensionality of input'')
      else Inr \<lparr>dtype = complex_of_dtype (dtype a), shape = shape a,
                elem = dft2_sum (- 1) a\<rparr>)"

definition backend_ifft2 :: transform where
  "backend_ifft2 a workers =
     (if length (shape a) < 2 then Inl (ValueError ''axes exceeds dimensionality of input'')
      else Inr \<lparr>dtype = complex_of_dtype (dtype a), shape = shape a,
                elem = (\<lambda>idx. dft2_sum 1 a idx
                                / complex_of_real (real (row (shape a) * col (shape a))))\<rparr>)"

definition get_dfts :: "transform \<times> transform" where
  "get_dfts = (backend_fft2, backend_ifft2)"

text \<open>
  Modelled from the spec: \<open>setitem\<close> of \<open>mbipy.src.utils\<close> is not part of the sources at
  hand. It is the functional (not in-place) indexed assignment; \<open>setitem a (i, j) v\<close> stands
  for the call with the index \<open>(..., i, j)\<close>, which addresses the entry \<open>(i, j)\<close> of the
  trailing two axes in every batch entry.
\<close>

definition setitem :: "ndarray \<Rightarrow> nat \<times> nat \<Rightarrow> complex \<Rightarrow> error + ndarray" where
  "setitem a ij v =
     (if length (shape a) < 2 \<or> row (shape a) \<le> fst ij \<or> col (shape a) \<le> snd ij
      then Inl IndexError
      else Inr (a\<lparr>elem := (\<lambda>idx. if row idx = fst ij \<and> col idx = snd ij then v
                                   else elem a idx)\<rparr>))"

section \<open>The operator\<close>

text \<open>
  A run of the operator is its outcome together with the collaborator and backend calls it
  made, in order. The log is what the statements about work not being attempted refer to.
\<close>

datatype event =
    EvGetDfts
  | EvCheckShapes
  | EvAntisym
  | EvFftfreq nat
  | EvFft2
  | EvSetitem
  | EvIfft2

type_synonym 'a run = "event list \<times> (error + 'a)"

definition call :: "event \<Rightarrow> error + 'a \<Rightarrow> 'a run" where
  "call ev r = ([ev], r)"

definition pure_op :: "error + 'a \<Rightarrow> 'a run" where
  "pure_op r = ([], r)"

definition then_run :: "'a run \<Rightarrow> ('a \<Rightarrow> 'b run) \<Rightarrow> 'b run" where
  "then_run m f =
     (case m of
        (t, Inl e) \<Rightarrow> (t, Inl e)
      | (t, Inr a) \<Rightarrow> (case f a of (t', r) \<Rightarrow> (t @ t', r)))"

text \<open>The truth value Python gives \<open>pad\<close> in \<open>2 * x if pad else x\<close>: \<open>None\<close> and the empty
  string are false, every other string is true.\<close>

fun truthy :: "string option \<Rightarrow> bool" where
  "truthy None = False"
| "truthy (Some s) = (s \<noteq> [])"

text \<open>Lines 55 to 58: the promoted dtype and its check.\<close>

definition check_dtype :: "ndarray \<Rightarrow> ndarray \<Rightarrow> dtype run" where
  "check_dtype gy gx =
     (let dt = result_type (dtype gy) (dtype gx) in
      if \<not> isdtype_real_floating dt
      then pure_op (Inl (ValueError ''Input arrays must be real-valued.''))
      else pure_op (Inr dt))"

text \<open>Lines 62 to 68: the three-way decision on \<open>pad\<close>.\<close>

definition pad_dispatch ::
  "string option \<Rightarrow> ndarray \<Rightarrow> ndarray \<Rightarrow> (ndarray \<times> ndarray) run" where
  "pad_dispatch pad gy gx =
     (if pad = Some ''antisym'' then call EvAntisym (antisym gy gx)
      else if pad = None then pure_op (Inr (gy, gx))
      else pure_op (Inl (ValueError (''Invalid value for pad: '' @ the pad))))"

text \<open>The local variables of \<open>kottler\<close> when it returns; \<open>f_den\<close> and \<open>f_phase\<close> are each
  assigned twice, and both values are kept.\<close>

record locals =
  v_dtype :: dtype
  v_y :: nat
  v_x :: nat
  v_gy :: ndarray
  v_gx :: ndarray
  v_fx :: ndarray
  v_fy :: ndarray
  v_f_num :: ndarray
  v_f_den_73 :: ndarray
  v_f_den :: ndarray
  v_f_phase_76 :: ndarray
  v_f_phase :: ndarray
  v_result :: ndarray

definition kottler_body ::
  "ndarray \<Rightarrow> ndarray \<Rightarrow> string option \<Rightarrow> int option \<Rightarrow> locals run" where
  "kottler_body gy0 gx0 pad workers =
     then_run (check_dtype gy0 gx0) (\<lambda>dt.
     then_run (call EvGetDfts (Inr get_dfts)) (\<lambda>(fft2, ifft2).
     then_run (call EvCheckShapes (check_shapes gx0 gy0)) (\<lambda>(y, x).
     then_run (pad_dispatch pad gy0 gx0) (\<lambda>(gy, gx).
     then_run (call (EvFftfreq (if truthy pad then 2 * x else x))
                 (fftfreq (if truthy pad then 2 * x else x))) (\<lambda>fx0.
     then_run (call (EvFftfreq (if truthy pad then 2 * y else y))
                 (fftfreq (if truthy pad then 2 * y else y))) (\<lambda>fy0.
     then_run (pure_op (as_column fy0)) (\<lambda>fy1.
     then_run (pure_op (add_arr gx (scalar_mul \<i> gy))) (\<lambda>g.
     then_run (call EvFft2 (fft2 g workers)) (\<lambda>f_num.
     then_run (pure_op (add_arr (astype fx0 dt) (scalar_mul \<i> (astype fy1 dt)))) (\<lambda>f.
     then_run (call EvSetitem
                 (setitem (scalar_mul (\<i> * 2 * complex_of_real pi) f) (0, 0) 1)) (\<lambda>f_den.
     then_run (pure_op (div_arr f_num f_den)) (\<lambda>f_phase0.
     then_run (call EvSetitem (setitem f_phase0 (0, 0) 0)) (\<lambda>f_phase.
     then_run (call EvIfft2 (ifft2 f_phase workers)) (\<lambda>r.
     then_run (pure_op (crop (real_part r) y x)) (\<lambda>res.
       pure_op (Inr \<lparr>v_dtype = dt, v_y = y, v_x = x, v_gy = gy, v_gx = gx,
                     v_fx = astype fx0 dt, v_fy = astype fy1 dt, v_f_num = f_num,
                     v_f_den_73 = scalar_mul (\<i> * 2 * complex_of_real pi) f,
                     v_f_den = f_den, v_f_phase_76 = f_phase0, v_f_phase = f_phase,
                     v_result = res\<rparr>))))))))))))))))"

text \<open>The call itself: the log and either the error raised or the array returned.\<close>

definition kottler_run ::
  "ndarray \<Rightarrow> ndarray \<Rightarrow> string option \<Rightarrow> int option \<Rightarrow> ndarray run" where
  "kottler_run gy gx pad workers =
     then_run (kottler_body gy gx pad workers) (\<lambda>L. pure_op (Inr (v_result L)))"

definition kottler ::
  "ndarray \<Rightarrow> ndarray \<Rightarrow> string option \<Rightarrow> int option \<Rightarrow> error + ndarray" where
  "kottler gy gx pad workers = snd (kottler_run gy gx pad workers)"

section \<open>Calls that return\<close>

text \<open>The call returns an array exactly for these inputs (\<open>kottler_returns_iff\<close> below): the
  promoted dtype is real floating, the two fields have one shape with at least two axes,
  neither spatial extent is zero (a zero extent makes \<open>fftfreq\<close> divide by zero), and \<open>pad\<close>
  is one of the two pad modes.\<close>

definition valid_call :: "ndarray \<Rightarrow> ndarray \<Rightarrow> string option \<Rightarrow> bool" where
  "valid_call gy gx pad =
     (isdtype_real_floating (result_type (dtype gy) (dtype gx)) \<and>
      shape gy = shape gx \<and> 2 \<le> length (shape gy) \<and>
      0 < row (shape gy) \<and> 0 < col (shape gy) \<and>
      (pad = None \<or> pad = Some ''antisym''))"

text \<open>The extent of a spatial axis after the pad stage.\<close>

definition padded :: "string option \<Rightarrow> nat \<Rightarrow> nat" where
  "padded pad n = (if pad = Some ''antisym'' then 2 * n else n)"

subsection \<open>Concrete inputs\<close>

definition example_gy :: ndarray where
  "example_gy = \<lparr>dtype = Float 64, shape = [2, 3], elem = (\<lambda>idx. of_nat (row idx))\<rparr>"

definition example_gx :: ndarray where
  "example_gx = \<lparr>dtype = Float 32, shape = [2, 3], elem = (\<lambda>idx. of_nat (col idx))\<rparr>"

definition example_int :: ndarray where
  "example_int = \<lparr>dtype = SInt 64, shape = [2, 3], elem = (\<lambda>idx. of_nat (col idx))\<rparr>"

definition example_int_tall :: ndarray where
  "example_int_tall = \<lparr>dtype = SInt 64, shape = [4, 3], elem = (\<lambda>idx. of_nat (col idx))\<rparr>"

definition example_tall :: ndarray where
  "example_tall = \<lparr>dtype = Float 64, shape = [4, 3], elem = (\<lambda>idx. of_nat (col idx))\<rparr>"

section \<open>A recovered field against a known field\<close>

text \<open>The notions of the round-trip property: the mean of a field over its grid (the
  trailing two axes, for the batch entry \<open>ld\<close>), a field with its mean taken off, and the
  complex gradient signal \<open>gx + i gy\<close> of the data model.\<close>

definition mean2 :: "ndarray \<Rightarrow> nat list \<Rightarrow> complex" where
  "mean2 a ld =
     (\<Sum>m<row (shape a). \<Sum>n<col (shape a). elem a (ld @ [m, n]))
       / of_nat (row (shape a) * col (shape a))"

definition centred :: "ndarray \<Rightarrow> nat list \<Rightarrow> complex" where
  "centred a idx = elem a idx - mean2 a (lead idx)"

definition complex_signal :: "ndarray \<Rightarrow> ndarray \<Rightarrow> ndarray" where
  "complex_signal gy gx =
     \<lparr>dtype = result_type (dtype gx) (complex_of_dtype (dtype gy)), shape = shape gx,
      elem = (\<lambda>idx. elem gx idx + \<i> * elem gy idx)\<rparr>"

text \<open>The entry of the returned field at \<open>idx\<close> with the mean of the returned field taken
  off, when the call returns.\<close>

definition recovered_centred ::
  "ndarray \<Rightarrow> ndarray \<Rightarrow> string option \<Rightarrow> int option \<Rightarrow> nat list \<Rightarrow> complex option" where
  "recovered_centred gy gx pad workers idx =
     (case kottler gy gx pad workers of
        Inl e \<Rightarrow> None
      | Inr res \<Rightarrow> Some (centred res idx))"

text \<open>A ramp \<open>phi(m, n) = n\<close> on a 2 by 2 grid with its gradients (finite differences and
  analytic gradient agree), and one period of a cosine on a 1 by 4 grid,
  \<open>phi(0, n) = cos (2 pi n / 4)\<close>, with its analytic gradient
  \<open>gx(0, n) = - (pi / 2) sin (2 pi n / 4)\<close>.\<close>

definition ramp_phi :: ndarray where
  "ramp_phi = \<lparr>dtype = Float 64, shape = [2, 2], elem = (\<lambda>idx. of_nat (col idx))\<rparr>"

definition ramp_gx :: ndarray where
  "ramp_gx = \<lparr>dtype = Float 64, shape = [2, 2], elem = (\<lambda>idx. 1)\<rparr>"

definition ramp_gy :: ndarray where
  "ramp_gy = \<lparr>dtype = Float 64, shape = [2, 2], elem = (\<lambda>idx. 0)\<rparr>"

definition wave_phi :: ndarray where
  "wave_phi = \<lparr>dtype = Float 64, shape = [1, 4],
     elem = (\<lambda>idx. if col idx = 0 then 1 else if col idx = 2 then - 1 else 0)\<rparr>"

definition wave_gx :: ndarray where
  "wave_gx = \<lparr>dtype = Float 64, shape = [1, 4],
     elem = (\<lambda>idx. if col idx = 1 then - complex_of_real (pi / 2)
                    else if col idx = 3 then complex_of_real (pi / 2) else 0)\<rparr>"

definition wave_gy :: ndarray where
  "wave_gy = \<lparr>dtype = Float 64, shape = [1, 4], elem = (\<lambda>idx. 0)\<rparr>"

section \<open>Properties of the array operations\<close>

lemma then_run_Inl: "then_run (t, Inl e) f = (t, Inl e)"
  by (simp add: then_run_def)

lemma then_run_Inr: "then_run (t, Inr a) f = (t @ fst (f a), snd (f a))"
  by (simp add: then_run_def split: prod.splits)

lemma broadcast_rev_suffix: "broadcast_rev (s @ l) s = Some (s @ l)"
proof (induction s)
  case Nil
  show ?case by (cases l) simp_all
next
  case (Cons x s)
  then show ?case by simp
qed

lemma broadcast_shapes_lead: "broadcast_shapes (ld @ s) s = Some (ld @ s)"
  by (simp add: broadcast_shapes_def broadcast_rev_suffix)

lemma broadcast_shapes_same: "broadcast_shapes s s = Some s"
  using broadcast_shapes_lead [of "[]" s] by simp

lemma broadcast_shapes_row_col: "broadcast_shapes [x] [y, Suc 0] = Some [y, x]"
  by (simp add: broadcast_shapes_def)

lemma in_range_length: "in_range idx s \<Longrightarrow> length idx = length s"
  by (simp add: in_range_def list_all2_lengthD)

lemma in_range_nth: "in_range idx s \<Longrightarrow> k < length s \<Longrightarrow> idx ! k < s ! k"
  by (simp add: in_range_def list_all2_conv_all_nth)

lemma bidx_self: "in_range idx s \<Longrightarrow> bidx s idx = idx"
proof -
  assume a: "in_range idx s"
  then have len: "length idx = length s" by (rule in_range_length)
  show ?thesis
  proof (rule nth_equalityI)
    show "length (bidx s idx) = length idx" using len by (simp add: bidx_def)
  next
    fix i assume "i < length (bidx s idx)"
    then have i: "i < length s" using len by (simp add: bidx_def)
    then have "idx ! i < s ! i" using a by (rule in_range_nth[rotated])
    then show "bidx s idx ! i = idx ! i" using i len by (auto simp add: bidx_def)
  qed
qed

lemma in_range_drop: "in_range idx (ld @ s) \<Longrightarrow> in_range (drop (length ld) idx) s"
  unfolding in_range_def
  by (metis append_eq_conv_conj list_all2_append2 list_all2_lengthD)

lemma bidx_lead: "in_range idx (ld @ s) \<Longrightarrow> bidx s idx = drop (length ld) idx"
proof -
  assume a: "in_range idx (ld @ s)"
  then have len: "length idx = length ld + length s" using in_range_length by fastforce
  have "bidx s idx = bidx s (drop (length ld) idx)"
    using len by (simp add: bidx_def)
  also have "\<dots> = drop (length ld) idx"
    using in_range_drop [OF a] by (rule bidx_self)
  finally show ?thesis .
qed

lemma shape_split: "2 \<le> length s \<Longrightarrow> s = lead s @ [row s, col s]"
proof -
  assume a: "2 \<le> length s"
  have "drop (length s - 2) s = [row s, col s]"
  proof (rule nth_equalityI)
    show "length (drop (length s - 2) s) = length [row s, col s]" using a by simp
  next
    fix i assume "i < length (drop (length s - 2) s)"
    then have "i = 0 \<or> i = 1" using a by auto
    then show "drop (length s - 2) s ! i = [row s, col s] ! i"
      using a by (auto simp add: row_def col_def)
  qed
  then show ?thesis
    unfolding lead_def by (metis append_take_drop_id)
qed

lemma lead_append [simp]: "lead (ld @ [a, b]) = ld" by (simp add: lead_def)
lemma row_append [simp]: "row (ld @ [a, b]) = a" by (simp add: row_def nth_append)
lemma col_append [simp]: "col (ld @ [a, b]) = b" by (simp add: col_def nth_append)
lemma lead_pair [simp]: "lead [a, b] = []" by (simp add: lead_def)
lemma row_pair [simp]: "row [a, b] = a" by (simp add: row_def)
lemma col_pair [simp]: "col [a, b] = b" by (simp add: col_def)

lemma then_run_Inr_iff:
  "then_run m f = (t, Inr b) \<longleftrightarrow>
     (\<exists>t1 a t2. m = (t1, Inr a) \<and> f a = (t2, Inr b) \<and> t = t1 @ t2)"
  by (auto simp add: then_run_def split: prod.splits sum.splits)

lemma call_Inr_iff: "call ev r = (t, Inr a) \<longleftrightarrow> t = [ev] \<and> r = Inr a"
  by (auto simp add: call_def)

lemma pure_op_Inr_iff: "pure_op r = (t, Inr a) \<longleftrightarrow> t = [] \<and> r = Inr a"
  by (auto simp add: pure_op_def)

lemma check_dtype_Inr_iff:
  "check_dtype gy gx = (t, Inr dt) \<longleftrightarrow>
     t = [] \<and> isdtype_real_floating (result_type (dtype gy) (dtype gx)) \<and>
     dt = result_type (dtype gy) (dtype gx)"
  by (auto simp add: check_dtype_def pure_op_def Let_def)

lemma kottler_body_dataflow:
  assumes "kottler_body gy0 gx0 pad w = (t, Inr L)"
  shows "\<exists>tp fx0 fy0 fy1 g f r.
     isdtype_real_floating (result_type (dtype gy0) (dtype gx0)) \<and>
     v_dtype L = result_type (dtype gy0) (dtype gx0) \<and>
     check_shapes gx0 gy0 = Inr (v_y L, v_x L) \<and>
     pad_dispatch pad gy0 gx0 = (tp, Inr (v_gy L, v_gx L)) \<and>
     fftfreq (if truthy pad then 2 * v_x L else v_x L) = Inr fx0 \<and>
     v_fx L = astype fx0 (v_dtype L) \<and>
     fftfreq (if truthy pad then 2 * v_y L else v_y L) = Inr fy0 \<and>
     as_column fy0 = Inr fy1 \<and>
     v_fy L = astype fy1 (v_dtype L) \<and>
     add_arr (v_gx L) (scalar_mul \<i> (v_gy L)) = Inr g \<and>
     backend_fft2 g w = Inr (v_f_num L) \<and>
     add_arr (v_fx L) (scalar_mul \<i> (v_fy L)) = Inr f \<and>
     v_f_den_73 L = scalar_mul (\<i> * 2 * complex_of_real pi) f \<and>
     setitem (v_f_den_73 L) (0, 0) 1 = Inr (v_f_den L) \<and>
     div_arr (v_f_num L) (v_f_den L) = Inr (v_f_phase_76 L) \<and>
     setitem (v_f_phase_76 L) (0, 0) 0 = Inr (v_f_phase L) \<and>
     backend_ifft2 (v_f_phase L) w = Inr r \<and>
     crop (real_part r) (v_y L) (v_x L) = Inr (v_result L) \<and>
     t = [EvGetDfts, EvCheckShapes] @ tp @
         [EvFftfreq (if truthy pad then 2 * v_x L else v_x L),
          EvFftfreq (if truthy pad then 2 * v_y L else v_y L),
          EvFft2, EvSetitem, EvSetitem, EvIfft2]"
  using assms
  unfolding kottler_body_def
  by (auto simp add: then_run_Inr_iff call_Inr_iff pure_op_Inr_iff check_dtype_Inr_iff
      get_dfts_def split: prod.splits)

lemma check_shapes_Inr:
  "check_shapes a b = Inr (y, x) \<Longrightarrow>
     shape a = shape b \<and> 2 \<le> length (shape a) \<and> y = row (shape a) \<and> x = col (shape a)"
  by (auto simp add: check_shapes_def split: if_splits)

lemma pad_dispatch_Inr:
  "pad_dispatch pad gy gx = (tp, Inr (gy', gx')) \<Longrightarrow>
     (pad = None \<and> tp = [] \<and> gy' = gy \<and> gx' = gx) \<or>
     (pad = Some ''antisym'' \<and> tp = [EvAntisym] \<and> 2 \<le> length (shape gy) \<and>
      2 \<le> length (shape gx) \<and>
      gy' = antisym_field True gy \<and> gx' = antisym_field False gx)"
  by (auto simp add: pad_dispatch_def call_def pure_op_def antisym_def split: if_splits)

lemma fftfreq_Inr:
  "fftfreq n = Inr a \<Longrightarrow>
     0 < n \<and> dtype a = Float 64 \<and> shape a = [n] \<and>
     (\<forall>idx. elem a idx = complex_of_real (fftfreq_val n (hd idx)))"
  by (auto simp add: fftfreq_def split: if_splits)

lemma as_column_Inr:
  "as_column a = Inr c \<Longrightarrow>
     (\<exists>n. shape a = [n] \<and> shape c = [n, 1]) \<and> dtype c = dtype a \<and>
     (\<forall>idx. elem c idx = elem a [hd idx])"
  by (auto simp add: as_column_def split: list.splits)

lemma binop_Inr:
  "binop f a b = Inr c \<Longrightarrow>
     broadcast_shapes (shape a) (shape b) = Some (shape c) \<and>
     dtype c = result_type (dtype a) (dtype b) \<and>
     (\<forall>idx. elem c idx = f (elem a (bidx (shape a) idx)) (elem b (bidx (shape b) idx)))"
  by (auto simp add: binop_def split: option.splits)

lemma transform_Inr:
  "backend_fft2 a w = Inr c \<Longrightarrow>
     2 \<le> length (shape a) \<and> shape c = shape a \<and> elem c = dft2_sum (- 1) a"
  "backend_ifft2 a w = Inr c \<Longrightarrow>
     2 \<le> length (shape a) \<and> shape c = shape a \<and>
     (\<forall>idx. elem c idx = dft2_sum 1 a idx
                           / complex_of_real (real (row (shape a) * col (shape a))))"
  by (auto simp add: backend_fft2_def backend_ifft2_def split: if_splits)

lemma setitem_Inr:
  "setitem a (i, j) v = Inr c \<Longrightarrow>
     2 \<le> length (shape a) \<and> i < row (shape a) \<and> j < col (shape a) \<and>
     shape c = shape a \<and> dtype c = dtype a \<and>
     (\<forall>idx. elem c idx = (if row idx = i \<and> col idx = j then v else elem a idx))"
  by (auto simp add: setitem_def split: if_splits)

lemma crop_Inr:
  "crop a y x = Inr c \<Longrightarrow>
     2 \<le> length (shape a) \<and>
     shape c = lead (shape a) @ [min y (row (shape a)), min x (col (shape a))] \<and>
     dtype c = dtype a \<and> elem c = elem a"
  by (auto simp add: crop_def Let_def lead_def row_def col_def split: if_splits)

lemma antisym_field_shape:
  "shape (antisym_field v g) = lead (shape g) @ [2 * row (shape g), 2 * col (shape g)]"
  by (simp add: antisym_field_def Let_def)

lemma kottler_body_shapes:
  assumes run: "kottler_body gy0 gx0 pad w = (t, Inr L)"
  shows "valid_call gy0 gx0 pad \<and>
     v_y L = row (shape gy0) \<and> v_x L = col (shape gy0) \<and>
     shape (v_gy L) = lead (shape gy0) @ [padded pad (v_y L), padded pad (v_x L)] \<and>
     shape (v_gx L) = lead (shape gy0) @ [padded pad (v_y L), padded pad (v_x L)] \<and>
     shape (v_fx L) = [padded pad (v_x L)] \<and>
     shape (v_fy L) = [padded pad (v_y L), 1] \<and>
     shape (v_f_num L) = lead (shape gy0) @ [padded pad (v_y L), padded pad (v_x L)] \<and>
     shape (v_f_den_73 L) = [padded pad (v_y L), padded pad (v_x L)] \<and>
     shape (v_f_den L) = [padded pad (v_y L), padded pad (v_x L)] \<and>
     shape (v_f_phase_76 L) = lead (shape gy0) @ [padded pad (v_y L), padded pad (v_x L)] \<and>
     shape (v_f_phase L) = lead (shape gy0) @ [padded pad (v_y L), padded pad (v_x L)] \<and>
     shape (v_result L) = lead (shape gy0) @ [v_y L, v_x L]"
proof -
  from kottler_body_dataflow [OF run] obtain tp fx0 fy0 fy1 g f r where
    dt: "isdtype_real_floating (result_type (dtype gy0) (dtype gx0))" and
    cs: "check_shapes gx0 gy0 = Inr (v_y L, v_x L)" and
    pd: "pad_dispatch pad gy0 gx0 = (tp, Inr (v_gy L, v_gx L))" and
    fx0: "fftfreq (if truthy pad then 2 * v_x L else v_x L) = Inr fx0" and
    fx: "v_fx L = astype fx0 (v_dtype L)" and
    fy0: "fftfreq (if truthy pad then 2 * v_y L else v_y L) = Inr fy0" and
    fy1: "as_column fy0 = Inr fy1" and
    fy: "v_fy L = astype fy1 (v_dtype L)" and
    g: "add_arr (v_gx L) (scalar_mul \<i> (v_gy L)) = Inr g" and
    fnum: "backend_fft2 g w = Inr (v_f_num L)" and
    f: "add_arr (v_fx L) (scalar_mul \<i> (v_fy L)) = Inr f" and
    d73: "v_f_den_73 L = scalar_mul (\<i> * 2 * complex_of_real pi) f" and
    den: "setitem (v_f_den_73 L) (0, 0) 1 = Inr (v_f_den L)" and
    p76: "div_arr (v_f_num L) (v_f_den L) = Inr (v_f_phase_76 L)" and
    ph: "setitem (v_f_phase_76 L) (0, 0) 0 = Inr (v_f_phase L)" and
    r: "backend_ifft2 (v_f_phase L) w = Inr r" and
    res: "crop (real_part r) (v_y L) (v_x L) = Inr (v_result L)"
    by blast
  define ld where "ld = lead (shape gy0)"
  define y where "y = v_y L"
  define x where "x = v_x L"
  from check_shapes_Inr [OF cs] have
    same: "shape gx0 = shape gy0" and len: "2 \<le> length (shape gy0)" and
    yx: "v_y L = row (shape gy0)" "v_x L = col (shape gy0)"
    by auto
  have sh0: "shape gy0 = ld @ [y, x]"
    using shape_split [OF len] yx by (simp add: ld_def y_def x_def)
  from pad_dispatch_Inr [OF pd] have padv: "pad = None \<or> pad = Some ''antisym''" by blast
  then have tr: "truthy pad \<longleftrightarrow> pad = Some ''antisym''" by auto
  have pgy: "shape (v_gy L) = ld @ [padded pad y, padded pad x]"
    and pgx: "shape (v_gx L) = ld @ [padded pad y, padded pad x]"
    using pad_dispatch_Inr [OF pd] sh0 same
    by (auto simp add: padded_def antisym_field_shape)
  have ex: "(if truthy pad then 2 * v_x L else v_x L) = padded pad x"
    and ey: "(if truthy pad then 2 * v_y L else v_y L) = padded pad y"
    using tr by (simp_all add: padded_def x_def y_def)
  from fftfreq_Inr [OF fx0] ex have px: "0 < padded pad x" and sfx0: "shape fx0 = [padded pad x]"
    by simp_all
  from fftfreq_Inr [OF fy0] ey have py: "0 < padded pad y" and sfy0: "shape fy0 = [padded pad y]"
    by simp_all
  have pos: "0 < y" "0 < x" using px py by (auto simp add: padded_def split: if_splits)
  have sfx: "shape (v_fx L) = [padded pad x]" using fx sfx0 by (simp add: astype_def)
  have sfy: "shape (v_fy L) = [padded pad y, 1]"
    using fy as_column_Inr [OF fy1] sfy0 by (auto simp add: astype_def)
  have sg: "shape g = ld @ [padded pad y, padded pad x]"
    using binop_Inr [OF g [unfolded add_arr_def]] pgy pgx
    by (simp add: scalar_mul_def broadcast_shapes_same)
  have sfnum: "shape (v_f_num L) = ld @ [padded pad y, padded pad x]"
    using transform_Inr(1) [OF fnum] sg by simp
  have sf: "shape f = [padded pad y, padded pad x]"
    using binop_Inr [OF f [unfolded add_arr_def]] sfx sfy
    by (simp add: scalar_mul_def broadcast_shapes_row_col)
  have s73: "shape (v_f_den_73 L) = [padded pad y, padded pad x]"
    using d73 sf by (simp add: scalar_mul_def)
  have sden: "shape (v_f_den L) = [padded pad y, padded pad x]"
    using setitem_Inr [OF den] s73 by simp
  have s76: "shape (v_f_phase_76 L) = ld @ [padded pad y, padded pad x]"
    using binop_Inr [OF p76 [unfolded div_arr_def]] sfnum sden
    by (simp add: broadcast_shapes_lead)
  have sph: "shape (v_f_phase L) = ld @ [padded pad y, padded pad x]"
    using setitem_Inr [OF ph] s76 by simp
  have sr: "shape r = ld @ [padded pad y, padded pad x]"
    using transform_Inr(2) [OF r] sph by simp
  have sres: "shape (v_result L) = ld @ [y, x]"
    using crop_Inr [OF res] sr by (auto simp add: real_part_def padded_def y_def x_def)
  have valid: "valid_call gy0 gx0 pad"
    using dt same len padv pos yx by (simp add: valid_call_def y_def x_def)
  show ?thesis
    using valid yx pgy pgx sfx sfy sfnum s73 sden s76 sph sres
    by (simp add: ld_def y_def x_def)
qed

lemma kottler_body_total:
  assumes "valid_call gy gx pad"
  shows "\<exists>t L. kottler_body gy gx pad w = (t, Inr L)"
proof -
  define ld where "ld = lead (shape gy)"
  define y where "y = row (shape gy)"
  define x where "x = col (shape gy)"
  have sh: "shape gy = ld @ [y, x]" "shape gx = ld @ [y, x]" and pos: "0 < y" "0 < x"
    and dt: "isdtype_real_floating (result_type (dtype gy) (dtype gx))"
    and pad: "pad = None \<or> pad = Some ''antisym''"
    using assms shape_split [of "shape gy"] by (auto simp add: valid_call_def ld_def y_def x_def)
  from pad show ?thesis
  proof
    assume "pad = None"
    then show ?thesis
      using pos dt
      by (simp add: kottler_body_def check_dtype_def pure_op_def call_def then_run_Inr
          get_dfts_def check_shapes_def sh pad_dispatch_def fftfreq_def as_column_def
          add_arr_def div_arr_def binop_def scalar_mul_def astype_def broadcast_shapes_same
          broadcast_shapes_lead broadcast_shapes_row_col backend_fft2_def backend_ifft2_def
          setitem_def crop_def real_part_def Let_def)
  next
    assume "pad = Some ''antisym''"
    then show ?thesis
      using pos dt
      by (simp add: kottler_body_def check_dtype_def pure_op_def call_def then_run_Inr
          get_dfts_def check_shapes_def sh pad_dispatch_def antisym_def antisym_field_shape
          fftfreq_def as_column_def
          add_arr_def div_arr_def binop_def scalar_mul_def astype_def broadcast_shapes_same
          broadcast_shapes_lead broadcast_shapes_row_col backend_fft2_def backend_ifft2_def
          setitem_def crop_def real_part_def Let_def)
  qed
qed

lemma kottler_body_error_dtype:
  "\<not> isdtype_real_floating (result_type (dtype gy) (dtype gx)) \<Longrightarrow>
   kottler_body gy gx pad w = ([], Inl (ValueError ''Input arrays must be real-valued.''))"
  by (simp add: kottler_body_def check_dtype_def pure_op_def then_run_Inl)

lemma kottler_body_check_shapes_error:
  assumes "isdtype_real_floating (result_type (dtype gy) (dtype gx))"
    and "check_shapes gx gy = Inl e"
  shows "kottler_body gy gx pad w = ([EvGetDfts, EvCheckShapes], Inl e)"
  using assms
  by (simp add: kottler_body_def check_dtype_def pure_op_def call_def then_run_Inl
      then_run_Inr get_dfts_def)

lemma kottler_body_invalid_pad:
  assumes "isdtype_real_floating (result_type (dtype gy) (dtype gx))"
    and "check_shapes gx gy = Inr yx" and "pad = Some s" and "s \<noteq> ''antisym''"
  shows "kottler_body gy gx pad w =
     ([EvGetDfts, EvCheckShapes], Inl (ValueError (''Invalid value for pad: '' @ s)))"
  using assms
  by (cases yx)
    (simp add: kottler_body_def check_dtype_def pure_op_def call_def then_run_Inl
      then_run_Inr get_dfts_def pad_dispatch_def)

lemma in_range_trailing:
  assumes "in_range idx (ld @ [a, b])"
  shows "drop (length ld) idx = [row idx, col idx]" "row idx < a" "col idx < b"
    "length idx = length ld + 2"
proof -
  have len: "length idx = length ld + 2" using in_range_length [OF assms] by simp
  then have "idx = lead idx @ [row idx, col idx]" by (intro shape_split) simp
  moreover have "length (lead idx) = length ld" using len by (simp add: lead_def)
  ultimately show "drop (length ld) idx = [row idx, col idx]"
    by (metis append_eq_conv_conj)
  have "idx ! (length ld) < (ld @ [a, b]) ! (length ld)"
    using assms by (intro in_range_nth) simp_all
  then show "row idx < a" using len by (simp add: row_def)
  have "idx ! (length ld + 1) < (ld @ [a, b]) ! (length ld + 1)"
    using assms by (intro in_range_nth) simp_all
  then show "col idx < b" using len by (simp add: col_def nth_append)
  show "length idx = length ld + 2" by (rule len)
qed

lemma complex_signal_elem:
  assumes "add_arr gx (scalar_mul \<i> gy) = Inr g" "shape gy = shape gx"
    "in_range idx (shape gx)"
  shows "elem g idx = elem gx idx + \<i> * elem gy idx"
  using binop_Inr [OF assms(1) [unfolded add_arr_def]] assms(2) bidx_self [OF assms(3)]
  by (simp add: scalar_mul_def)

lemma grid_sum_elem:
  assumes "add_arr fx (scalar_mul \<i> fy) = Inr f" "shape fx = [px]" "shape fy = [py, 1]"
    "k < py" "l < px"
  shows "elem f [k, l] = elem fx [l] + \<i> * elem fy [k, 0]"
proof -
  have "bidx [px] [k, l] = [l]" using assms(5) by (auto simp add: bidx_def)
  moreover have "bidx [py, 1] [k, l] = [k, 0]" using assms(4) by (auto simp add: bidx_def)
  ultimately show ?thesis
    using binop_Inr [OF assms(1) [unfolded add_arr_def]] assms(2,3)
    by (simp add: scalar_mul_def)
qed

lemma quotient_elem:
  assumes "div_arr a b = Inr c" "shape a = ld @ [py, px]" "shape b = [py, px]"
    "in_range idx (shape a)"
  shows "elem c idx = elem a idx / elem b [row idx, col idx]"
proof -
  have "bidx (shape a) idx = idx" using assms(4) by (rule bidx_self)
  moreover have "bidx [py, px] idx = [row idx, col idx]"
    using assms(2,4) bidx_lead [of idx ld "[py, px]"] in_range_trailing(1) [of idx ld py px]
    by simp
  ultimately show ?thesis
    using binop_Inr [OF assms(1) [unfolded div_arr_def]] assms(3) by simp
qed

lemma fftfreq_val_zero_iff: "k < n \<Longrightarrow> fftfreq_val n k = 0 \<longleftrightarrow> k = 0"
  by (auto simp add: fftfreq_val_def)

lemma fftfreq_val_standard:
  assumes "k < n"
  shows "- 1 / 2 \<le> fftfreq_val n k" "fftfreq_val n k < 1 / 2"
    "real n * fftfreq_val n k = real k \<or> real n * fftfreq_val n k = real k - real n"
proof -
  have n: "0 < real n" using assms by simp
  show "real n * fftfreq_val n k = real k \<or> real n * fftfreq_val n k = real k - real n"
    using assms by (auto simp add: fftfreq_val_def)
  show "- 1 / 2 \<le> fftfreq_val n k"
  proof (cases "k < (n - 1) div 2 + 1")
    case True
    then have "fftfreq_val n k = real k / real n" by (simp add: fftfreq_val_def)
    moreover have "0 \<le> real k / real n" by simp
    ultimately show ?thesis by linarith
  next
    case False
    then have v: "fftfreq_val n k = (real k - real n) / real n" by (simp add: fftfreq_val_def)
    from False have "n \<le> 2 * k" by arith
    then have "real n \<le> 2 * real k" by (metis of_nat_le_iff of_nat_mult of_nat_numeral)
    then have "- (1 / 2) * real n \<le> real k - real n" by simp
    then have "- (1 / 2) \<le> (real k - real n) / real n"
      using n by (simp add: pos_le_divide_eq)
    then show ?thesis unfolding v by simp
  qed
  show "fftfreq_val n k < 1 / 2"
  proof (cases "k < (n - 1) div 2 + 1")
    case True
    then have v: "fftfreq_val n k = real k / real n" by (simp add: fftfreq_val_def)
    from True n have "2 * k < n" by (cases n) auto
    then have "2 * real k < real n" by (metis of_nat_less_iff of_nat_mult of_nat_numeral)
    then have "real k / real n < 1 / 2" using n by (simp add: pos_divide_less_eq)
    then show ?thesis unfolding v .
  next
    case False
    then have v: "fftfreq_val n k = (real k - real n) / real n" by (simp add: fftfreq_val_def)
    have "real k - real n < 0" using assms by simp
    then have "(real k - real n) / real n < 0" using n by (simp add: divide_neg_pos)
    then show ?thesis unfolding v by linarith
  qed
qed


lemma kottler_body_grids:
  assumes run: "kottler_body gy0 gx0 pad w = (t, Inr L)"
  shows "dtype (v_fx L) = result_type (dtype gy0) (dtype gx0)"
    "dtype (v_fy L) = result_type (dtype gy0) (dtype gx0)"
    "elem (v_fx L) idx = complex_of_real (fftfreq_val (padded pad (v_x L)) (hd idx))"
    "elem (v_fy L) idx = complex_of_real (fftfreq_val (padded pad (v_y L)) (hd idx))"
proof -
  from kottler_body_dataflow [OF run] obtain fx0 fy0 fy1 where
    dt: "v_dtype L = result_type (dtype gy0) (dtype gx0)" and
    fx0: "fftfreq (if truthy pad then 2 * v_x L else v_x L) = Inr fx0" and
    fx: "v_fx L = astype fx0 (v_dtype L)" and
    fy0: "fftfreq (if truthy pad then 2 * v_y L else v_y L) = Inr fy0" and
    fy1: "as_column fy0 = Inr fy1" and
    fy: "v_fy L = astype fy1 (v_dtype L)"
    by blast
  from kottler_body_shapes [OF run] have "pad = None \<or> pad = Some ''antisym''"
    by (simp add: valid_call_def)
  then have ex: "(if truthy pad then 2 * v_x L else v_x L) = padded pad (v_x L)"
    and ey: "(if truthy pad then 2 * v_y L else v_y L) = padded pad (v_y L)"
    by (auto simp add: padded_def)
  show "dtype (v_fx L) = result_type (dtype gy0) (dtype gx0)"
    "dtype (v_fy L) = result_type (dtype gy0) (dtype gx0)"
    using fx fy dt by (simp_all add: astype_def)
  show "elem (v_fx L) idx = complex_of_real (fftfreq_val (padded pad (v_x L)) (hd idx))"
    using fftfreq_Inr [OF fx0] fx ex by (simp add: astype_def)
  show "elem (v_fy L) idx = complex_of_real (fftfreq_val (padded pad (v_y L)) (hd idx))"
    using fftfreq_Inr [OF fy0] as_column_Inr [OF fy1] fy ey by (simp add: astype_def)
qed

lemma kottler_body_den:
  assumes run: "kottler_body gy0 gx0 pad w = (t, Inr L)"
    and k: "k < padded pad (v_y L)" and l: "l < padded pad (v_x L)"
  shows "elem (v_f_den_73 L) [k, l] =
           \<i> * 2 * complex_of_real pi * (elem (v_fx L) [l] + \<i> * elem (v_fy L) [k, 0])"
    "elem (v_f_den L) [k, l] = (if k = 0 \<and> l = 0 then 1 else elem (v_f_den_73 L) [k, l])"
    "elem (v_f_den L) [k, l] \<noteq> 0"
proof -
  from kottler_body_dataflow [OF run] obtain f where
    f: "add_arr (v_fx L) (scalar_mul \<i> (v_fy L)) = Inr f" and
    d73: "v_f_den_73 L = scalar_mul (\<i> * 2 * complex_of_real pi) f" and
    den: "setitem (v_f_den_73 L) (0, 0) 1 = Inr (v_f_den L)"
    by blast
  from kottler_body_shapes [OF run] have
    sfx: "shape (v_fx L) = [padded pad (v_x L)]" and
    sfy: "shape (v_fy L) = [padded pad (v_y L), 1]"
    by simp_all
  show e73: "elem (v_f_den_73 L) [k, l] =
           \<i> * 2 * complex_of_real pi * (elem (v_fx L) [l] + \<i> * elem (v_fy L) [k, 0])"
    using grid_sum_elem [OF f sfx sfy k l] d73 by (simp add: scalar_mul_def)
  show eden: "elem (v_f_den L) [k, l] = (if k = 0 \<and> l = 0 then 1 else elem (v_f_den_73 L) [k, l])"
    using setitem_Inr [OF den] by simp
  have "elem (v_fx L) [l] + \<i> * elem (v_fy L) [k, 0] \<noteq> 0" if "\<not> (k = 0 \<and> l = 0)"
  proof -
    have "fftfreq_val (padded pad (v_x L)) l \<noteq> 0 \<or> fftfreq_val (padded pad (v_y L)) k \<noteq> 0"
      using that fftfreq_val_zero_iff [OF k] fftfreq_val_zero_iff [OF l] by blast
    then show ?thesis
      by (auto simp add: kottler_body_grids [OF run] complex_eq_iff)
  qed
  then show "elem (v_f_den L) [k, l] \<noteq> 0"
    using eden e73 by (auto simp add: complex_eq_iff)
qed

lemma kottler_run_body:
  "kottler_run gy gx pad w =
     (case kottler_body gy gx pad w of
        (t, Inl e) \<Rightarrow> (t, Inl e)
      | (t, Inr L) \<Rightarrow> (t, Inr (v_result L)))"
  by (simp add: kottler_run_def then_run_def pure_op_def split: prod.splits sum.splits)

lemma kottler_of_body:
  "kottler_body gy gx pad w = (t, Inr L) \<Longrightarrow> kottler gy gx pad w = Inr (v_result L)"
  by (simp add: kottler_def kottler_run_body)

lemma kottler_returns_iff:
  "(\<exists>res. kottler gy gx pad w = Inr res) \<longleftrightarrow> valid_call gy gx pad"
proof
  assume "\<exists>res. kottler gy gx pad w = Inr res"
  then obtain t L where "kottler_body gy gx pad w = (t, Inr L)"
    by (auto simp add: kottler_def kottler_run_body split: prod.splits sum.splits)
  from kottler_body_shapes [OF this] show "valid_call gy gx pad" by simp
next
  assume "valid_call gy gx pad"
  from kottler_body_total [OF this] obtain t L where
    "kottler_body gy gx pad w = (t, Inr L)" by blast
  from kottler_of_body [OF this] show "\<exists>res. kottler gy gx pad w = Inr res" by blast
qed

lemma fst_then_run:
  "fst (then_run m f) = fst m @ (case snd m of Inl e \<Rightarrow> [] | Inr a \<Rightarrow> fst (f a))"
  by (simp add: then_run_def split: prod.splits sum.splits)

lemma in_log_then_run:
  "ev \<in> set (fst (then_run m f)) \<Longrightarrow>
     ev \<in> set (fst m) \<or> (\<exists>a. snd m = Inr a \<and> ev \<in> set (fst (f a)))"
  by (auto simp add: fst_then_run split: sum.splits)

lemma kottler_body_log_events:
  assumes "ev \<in> set (fst (kottler_body gy gx pad w))"
  shows "ev \<in> {EvGetDfts, EvCheckShapes, EvFft2, EvSetitem, EvIfft2} \<or>
     (ev = EvAntisym \<and> pad = Some ''antisym'') \<or>
     (\<exists>y x. check_shapes gx gy = Inr (y, x) \<and> (pad = None \<or> pad = Some ''antisym'') \<and>
        (ev = EvFftfreq (if truthy pad then 2 * x else x) \<or>
         ev = EvFftfreq (if truthy pad then 2 * y else y)))"
  using assms unfolding kottler_body_def
  by (auto dest!: in_log_then_run
      simp add: call_def pure_op_def check_dtype_def pad_dispatch_def Let_def
      split: if_splits prod.splits)

lemma kottler_body_log_antisym:
  assumes "EvFftfreq n \<in> set (fst (kottler_body gy gx pad w))" and "pad = Some ''antisym''"
  shows "EvAntisym \<in> set (fst (kottler_body gy gx pad w))"
proof (cases "isdtype_real_floating (result_type (dtype gy) (dtype gx))")
  case False
  then show ?thesis using assms(1) by (simp add: kottler_body_error_dtype)
next
  case True
  show ?thesis
  proof (cases "check_shapes gx gy")
    case (Inl e)
    then show ?thesis using assms(1) True by (simp add: kottler_body_check_shapes_error)
  next
    case (Inr yx)
    then show ?thesis
      using True assms(2)
      by (cases yx)
        (simp add: kottler_body_def fst_then_run check_dtype_def call_def pure_op_def
          pad_dispatch_def get_dfts_def)
  qed
qed

lemma kottler_body_log:
  assumes run: "kottler_body gy gx pad w = (t, Inr L)"
  shows "t = [EvGetDfts, EvCheckShapes] @ (if pad = Some ''antisym'' then [EvAntisym] else []) @
     [EvFftfreq (padded pad (v_x L)), EvFftfreq (padded pad (v_y L)),
      EvFft2, EvSetitem, EvSetitem, EvIfft2]"
proof -
  from kottler_body_dataflow [OF run] obtain tp where
    pd: "pad_dispatch pad gy gx = (tp, Inr (v_gy L, v_gx L))" and
    t: "t = [EvGetDfts, EvCheckShapes] @ tp @
         [EvFftfreq (if truthy pad then 2 * v_x L else v_x L),
          EvFftfreq (if truthy pad then 2 * v_y L else v_y L),
          EvFft2, EvSetitem, EvSetitem, EvIfft2]"
    by blast
  from pad_dispatch_Inr [OF pd] show ?thesis
    unfolding t by (auto simp add: padded_def)
qed

lemma kottler_run_log: "fst (kottler_run gy gx pad w) = fst (kottler_body gy gx pad w)"
  by (simp add: kottler_run_body split: prod.splits sum.splits)

lemma transform_workers:
  "backend_fft2 a w = backend_fft2 a w'" "backend_ifft2 a w = backend_ifft2 a w'"
  by (simp_all add: backend_fft2_def backend_ifft2_def)

lemma kottler_body_workers: "kottler_body gy gx pad w = kottler_body gy gx pad w'"
  unfolding kottler_body_def
  by (simp add: call_def then_run_Inr get_dfts_def transform_workers [of _ w w'])

lemma in_range_replace:
  assumes "in_range idx (ld @ [a, b])" "m < a" "n < b"
  shows "in_range (lead idx @ [m, n]) (ld @ [a, b])"
proof -
  have len: "length idx = length ld + 2" using in_range_trailing(4) [OF assms(1)] .
  then have split: "idx = lead idx @ [row idx, col idx]" by (intro shape_split) simp
  have ll: "length (lead idx) = length ld" using len by (simp add: lead_def)
  have "list_all2 (\<lambda>i n. i < n) (lead idx @ [row idx, col idx]) (ld @ [a, b])"
    using assms(1) split by (simp add: in_range_def)
  then have "list_all2 (\<lambda>i n. i < n) (lead idx) ld"
    using ll by (simp add: list_all2_append)
  then show ?thesis
    using assms(2,3) ll by (simp add: in_range_def list_all2_append)
qed

lemma antisym_field_block:
  assumes "in_range idx (shape g)" "2 \<le> length (shape g)"
  shows "elem (antisym_field v g) idx = elem g idx"
proof -
  have s: "shape g = lead (shape g) @ [row (shape g), col (shape g)]"
    using assms(2) by (rule shape_split)
  have r: "in_range idx (lead (shape g) @ [row (shape g), col (shape g)])"
    using assms(1) s by simp
  have len: "length idx = length (lead (shape g)) + 2" using in_range_trailing(4) [OF r] .
  then have split: "lead idx @ [row idx, col idx] = idx"
    using shape_split [of idx] by simp
  show ?thesis
    using in_range_trailing(2,3) [OF r] split
    by (simp add: antisym_field_def Let_def reflect_def)
qed

lemma kottler_body_fields:
  assumes run: "kottler_body gy gx pad w = (t, Inr L)"
  shows "pad = None \<longrightarrow> v_gy L = gy \<and> v_gx L = gx"
    "pad = Some ''antisym'' \<longrightarrow> antisym gy gx = Inr (v_gy L, v_gx L)"
    "in_range idx (shape gy) \<Longrightarrow> elem (v_gy L) idx = elem gy idx \<and> elem (v_gx L) idx = elem gx idx"
proof -
  from kottler_body_dataflow [OF run] obtain tp where
    pd: "pad_dispatch pad gy gx = (tp, Inr (v_gy L, v_gx L))" by blast
  from kottler_body_shapes [OF run] have same: "shape gy = shape gx"
    and len: "2 \<le> length (shape gy)"
    unfolding valid_call_def by blast+
  show "pad = None \<longrightarrow> v_gy L = gy \<and> v_gx L = gx"
    using pad_dispatch_Inr [OF pd] by auto
  show "pad = Some ''antisym'' \<longrightarrow> antisym gy gx = Inr (v_gy L, v_gx L)"
    using pad_dispatch_Inr [OF pd] by (auto simp add: antisym_def)
  assume r: "in_range idx (shape gy)"
  from pad_dispatch_Inr [OF pd]
  show "elem (v_gy L) idx = elem gy idx \<and> elem (v_gx L) idx = elem gx idx"
  proof
    assume "pad = None \<and> tp = [] \<and> v_gy L = gy \<and> v_gx L = gx"
    then show ?thesis by simp
  next
    assume a: "pad = Some ''antisym'' \<and> tp = [EvAntisym] \<and> 2 \<le> length (shape gy) \<and>
      2 \<le> length (shape gx) \<and>
      v_gy L = antisym_field True gy \<and> v_gx L = antisym_field False gx"
    have "elem (antisym_field True gy) idx = elem gy idx"
      using r len by (rule antisym_field_block)
    moreover have "elem (antisym_field False gx) idx = elem gx idx"
      using r len same by (intro antisym_field_block) simp_all
    ultimately show ?thesis using a by simp
  qed
qed

lemma kottler_body_f_num:
  assumes run: "kottler_body gy gx pad w = (t, Inr L)"
    and r: "in_range idx (shape (v_f_num L))"
  shows "elem (v_f_num L) idx =
     (\<Sum>m<padded pad (v_y L). \<Sum>n<padded pad (v_x L).
        (elem (v_gx L) (lead idx @ [m, n]) + \<i> * elem (v_gy L) (lead idx @ [m, n])) *
        cis (- 1 * 2 * pi * (real (row idx) * real m / real (padded pad (v_y L))
                              + real (col idx) * real n / real (padded pad (v_x L)))))"
proof -
  from kottler_body_dataflow [OF run] obtain g where
    g: "add_arr (v_gx L) (scalar_mul \<i> (v_gy L)) = Inr g" and
    fnum: "backend_fft2 g w = Inr (v_f_num L)"
    by blast
  note sh = kottler_body_shapes [OF run]
  have same: "shape (v_gy L) = shape (v_gx L)" using sh by simp
  have sg: "shape g = lead (shape gy) @ [padded pad (v_y L), padded pad (v_x L)]"
    using transform_Inr(1) [OF fnum] sh by simp
  have sgx: "shape (v_gx L) = lead (shape gy) @ [padded pad (v_y L), padded pad (v_x L)]"
    using sh by simp
  have ri: "in_range idx (lead (shape gy) @ [padded pad (v_y L), padded pad (v_x L)])"
    using r sh by simp
  have el: "elem g (lead idx @ [m, n]) =
      elem (v_gx L) (lead idx @ [m, n]) + \<i> * elem (v_gy L) (lead idx @ [m, n])"
    if "m < padded pad (v_y L)" "n < padded pad (v_x L)" for m n
    using complex_signal_elem [OF g same] in_range_replace [OF ri that] sgx by simp
  have "elem (v_f_num L) idx = dft2_sum (- 1) g idx"
    using transform_Inr(1) [OF fnum] by simp
  also have "\<dots> = (\<Sum>m<padded pad (v_y L). \<Sum>n<padded pad (v_x L).
        elem g (lead idx @ [m, n]) *
        cis (- 1 * 2 * pi * (real (row idx) * real m / real (padded pad (v_y L))
                              + real (col idx) * real n / real (padded pad (v_x L)))))"
    by (simp add: dft2_sum_def Let_def sg)
  also have "\<dots> = (\<Sum>m<padded pad (v_y L). \<Sum>n<padded pad (v_x L).
        (elem (v_gx L) (lead idx @ [m, n]) + \<i> * elem (v_gy L) (lead idx @ [m, n])) *
        cis (- 1 * 2 * pi * (real (row idx) * real m / real (padded pad (v_y L))
                              + real (col idx) * real n / real (padded pad (v_x L)))))"
    by (intro sum.cong refl) (simp add: el)
  finally show ?thesis .
qed

lemma root_of_unity_sum:
  assumes n: "0 < n"
  shows "(\<Sum>k<n. cis (2 * pi * real_of_int j * real k / real n)) =
           (if int n dvd j then of_nat n else 0)"
proof -
  define w where "w = cis (2 * pi * real_of_int j / real n)"
  have pw: "cis (2 * pi * real_of_int j * real k / real n) = w ^ k" for k
    by (simp add: w_def DeMoivre mult_ac)
  have wn: "w ^ n = 1"
  proof -
    have "w ^ n = cis (2 * pi * real_of_int j)"
      using n by (simp add: w_def DeMoivre)
    then show ?thesis by simp
  qed
  show ?thesis
  proof (cases "int n dvd j")
    case True
    then obtain q where q: "j = int n * q" by (auto simp add: dvd_def)
    have "2 * pi * real_of_int j / real n = 2 * pi * real_of_int q"
      using n by (simp add: q)
    then have "w = 1" by (simp add: w_def)
    then show ?thesis using True by (simp add: pw)
  next
    case False
    have "w \<noteq> 1"
    proof
      assume "w = 1"
      then have "cos (2 * pi * real_of_int j / real n) = 1"
        by (simp add: w_def complex_eq_iff)
      then obtain m :: int where m: "2 * pi * real_of_int j / real n = real_of_int m * 2 * pi"
        unfolding cos_one_2pi_int by blast
      then have "real_of_int j = real_of_int (m * int n)"
        using n by (simp add: field_simps)
      then have "j = m * int n" by (simp only: of_int_eq_iff)
      then show False using False by simp
    qed
    then have "(\<Sum>k<n. w ^ k) = (w ^ n - 1) / (w - 1)" by (rule geometric_sum)
    then show ?thesis using False wn by (simp add: pw)
  qed
qed

lemma dft_kernel_sum:
  assumes "m < n" "m' < n"
  shows "(\<Sum>k<n. cis (2 * pi * (real m' - real m) * real k / real n)) =
           (if m = m' then of_nat n else 0)"
proof -
  have n: "0 < n" using assms by simp
  have "(real m' - real m) = real_of_int (int m' - int m)" by simp
  then have "(\<Sum>k<n. cis (2 * pi * (real m' - real m) * real k / real n)) =
      (\<Sum>k<n. cis (2 * pi * real_of_int (int m' - int m) * real k / real n))"
    by simp
  also have "\<dots> = (if int n dvd (int m' - int m) then of_nat n else 0)"
    using n by (rule root_of_unity_sum)
  also have "int n dvd (int m' - int m) \<longleftrightarrow> m = m'"
  proof
    assume d: "int n dvd (int m' - int m)"
    have lt: "\<bar>int m' - int m\<bar> < int n" using assms by linarith
    from d obtain q where q: "int m' - int m = int n * q" by (auto simp add: dvd_def)
    from lt have "int n * \<bar>q\<bar> < int n * 1" by (simp add: q abs_mult)
    then have "\<bar>q\<bar> < 1" using n by (simp only: mult_less_cancel_left_pos of_nat_0_less_iff)
    then have "q = 0" by simp
    then have "int m' - int m = 0" by (simp add: q)
    then show "m = m'" by simp
  qed simp
  finally show ?thesis .
qed


lemma dft2_inversion:
  fixes a :: "nat \<Rightarrow> nat \<Rightarrow> complex"
  assumes m': "m' < Y" and n': "n' < X"
  shows "(\<Sum>k<Y. \<Sum>l<X.
            (\<Sum>m<Y. \<Sum>n<X. a m n *
               cis (- 1 * 2 * pi * (real k * real m / real Y + real l * real n / real X))) *
            cis (1 * 2 * pi * (real m' * real k / real Y + real n' * real l / real X))) =
         of_nat (Y * X) * a m' n'"
proof -
  define u where "u m k = cis (2 * pi * (real m' - real m) * real k / real Y)" for m k
  define v where "v n l = cis (2 * pi * (real n' - real n) * real l / real X)" for n l
  have Y: "0 < Y" and X: "0 < X" using m' n' by simp_all
  have ker: "cis (- 1 * 2 * pi * (real k * real m / real Y + real l * real n / real X)) *
      cis (1 * 2 * pi * (real m' * real k / real Y + real n' * real l / real X)) =
      u m k * v n l" for k l m n
    unfolding u_def v_def cis_mult
    by (rule arg_cong [of _ _ cis]) (simp add: algebra_simps diff_divide_distrib)
  have prod: "(\<Sum>k<Y. \<Sum>l<X. c * (u m k * v n l)) =
      c * ((\<Sum>k<Y. u m k) * (\<Sum>l<X. v n l))" for c m n
  proof -
    have "c * ((\<Sum>k<Y. u m k) * (\<Sum>l<X. v n l)) = c * (\<Sum>k<Y. \<Sum>l<X. u m k * v n l)"
      by (simp only: sum_product)
    also have "\<dots> = (\<Sum>k<Y. c * (\<Sum>l<X. u m k * v n l))"
      by (rule sum_distrib_left)
    also have "\<dots> = (\<Sum>k<Y. \<Sum>l<X. c * (u m k * v n l))"
      by (intro sum.cong refl sum_distrib_left)
    finally show ?thesis by (rule sym)
  qed
  have ker2: "a m n *
      cis (- 1 * 2 * pi * (real k * real m / real Y + real l * real n / real X)) *
      cis (1 * 2 * pi * (real m' * real k / real Y + real n' * real l / real X)) =
      a m n * (u m k * v n l)" for k l m n
    unfolding ker [symmetric] by (rule mult.assoc)
  have "(\<Sum>k<Y. \<Sum>l<X.
            (\<Sum>m<Y. \<Sum>n<X. a m n *
               cis (- 1 * 2 * pi * (real k * real m / real Y + real l * real n / real X))) *
            cis (1 * 2 * pi * (real m' * real k / real Y + real n' * real l / real X))) =
        (\<Sum>k<Y. \<Sum>l<X. \<Sum>m<Y. \<Sum>n<X. a m n * (u m k * v n l))"
    by (intro sum.cong refl) (simp only: sum_distrib_right ker2)
  also have "\<dots> = (\<Sum>k<Y. \<Sum>m<Y. \<Sum>l<X. \<Sum>n<X. a m n * (u m k * v n l))"
    by (intro sum.cong refl sum.swap)
  also have "\<dots> = (\<Sum>m<Y. \<Sum>k<Y. \<Sum>l<X. \<Sum>n<X. a m n * (u m k * v n l))"
    by (rule sum.swap)
  also have "\<dots> = (\<Sum>m<Y. \<Sum>k<Y. \<Sum>n<X. \<Sum>l<X. a m n * (u m k * v n l))"
    by (intro sum.cong refl sum.swap)
  also have "\<dots> = (\<Sum>m<Y. \<Sum>n<X. \<Sum>k<Y. \<Sum>l<X. a m n * (u m k * v n l))"
    by (intro sum.cong refl sum.swap)
  also have "\<dots> = (\<Sum>m<Y. \<Sum>n<X. a m n * ((\<Sum>k<Y. u m k) * (\<Sum>l<X. v n l)))"
    by (intro sum.cong refl prod)
  also have "\<dots> = (\<Sum>m<Y. \<Sum>n<X.
      a m n * ((if m = m' then of_nat Y else 0) * (if n = n' then of_nat X else 0)))"
    by (intro sum.cong refl) (simp add: u_def v_def dft_kernel_sum m' n')
  also have "\<dots> = (\<Sum>m<Y. if m = m' then of_nat (Y * X) * a m n' else 0)"
  proof (intro sum.cong refl)
    fix m
    have "(\<Sum>n<X. a m n * ((if m = m' then of_nat Y else 0) * (if n = n' then of_nat X else 0))) =
        (\<Sum>n<X. if n = n' then (if m = m' then of_nat (Y * X) * a m n else 0) else 0)"
      by (intro sum.cong refl) simp
    also have "\<dots> = (if m = m' then of_nat (Y * X) * a m n' else 0)"
      using n' by (simp add: sum.delta)
    finally show "(\<Sum>n<X. a m n *
        ((if m = m' then of_nat Y else 0) * (if n = n' then of_nat X else 0))) =
        (if m = m' then of_nat (Y * X) * a m n' else 0)" .
  qed
  also have "\<dots> = of_nat (Y * X) * a m' n'"
    using m' by (simp add: sum.delta)
  finally show ?thesis .
qed

lemma sum_without_origin:
  fixes f :: "nat \<Rightarrow> nat \<Rightarrow> complex"
  assumes "0 < Y" "0 < X"
  shows "(\<Sum>k<Y. \<Sum>l<X. (if k = 0 \<and> l = 0 then 0 else f k l)) =
           (\<Sum>k<Y. \<Sum>l<X. f k l) - f 0 0"
proof -
  have "(\<Sum>k<Y. \<Sum>l<X. (if k = 0 \<and> l = 0 then 0 else f k l)) =
      (\<Sum>k<Y. \<Sum>l<X. f k l - (if k = 0 then (if l = 0 then f 0 0 else 0) else 0))"
    by (intro sum.cong refl) simp
  also have "\<dots> = (\<Sum>k<Y. \<Sum>l<X. f k l) -
      (\<Sum>k<Y. \<Sum>l<X. (if k = 0 then (if l = 0 then f 0 0 else 0) else 0))"
    by (simp only: sum_subtractf)
  also have "(\<Sum>k<Y. \<Sum>l<X. (if k = 0 then (if l = 0 then f 0 0 else 0) else 0)) =
      (\<Sum>k<Y. if k = 0 then f 0 0 else 0)"
    using assms(2) by (intro sum.cong refl) (simp add: sum.delta)
  also have "\<dots> = f 0 0" using assms(1) by (simp add: sum.delta)
  finally show ?thesis .
qed

lemma dft2_sum_signal:
  assumes run: "kottler_body gy gx None w = (t, Inr L)"
    and r: "in_range idx (shape gy)"
  shows "elem (v_f_num L) idx = dft2_sum (- 1) (complex_signal gy gx) idx"
proof -
  note sh = kottler_body_shapes [OF run]
  have e: "v_gy L = gy" "v_gx L = gx" using kottler_body_fields(1) [OF run] by simp_all
  have same: "shape gx = shape gy" using sh by (simp add: valid_call_def)
  have len: "2 \<le> length (shape gy)" using sh unfolding valid_call_def by blast
  have yx: "v_y L = row (shape gy)" "v_x L = col (shape gy)" using sh by simp_all
  have sn: "shape (v_f_num L) = shape gy"
    using sh shape_split [OF len] by (simp add: padded_def)
  have "in_range idx (shape (v_f_num L))" using r sn by simp
  from kottler_body_f_num [OF run this] show ?thesis
    by (simp add: dft2_sum_def complex_signal_def Let_def e yx same padded_def)
qed


lemma kottler_phase_is_spectrum:
  assumes run: "kottler_body gy gx None w = (t, Inr L)"
    and grad: "\<forall>idx. in_range idx (shape gy) \<and> \<not> (row idx = 0 \<and> col idx = 0) \<longrightarrow>
        dft2_sum (- 1) (complex_signal gy gx) idx =
          \<i> * 2 * complex_of_real pi *
            (complex_of_real (fftfreq_val (col (shape gy)) (col idx))
             + \<i> * complex_of_real (fftfreq_val (row (shape gy)) (row idx))) *
          dft2_sum (- 1) phi idx"
    and r: "in_range idx (shape gy)"
  shows "elem (v_f_phase L) idx =
           (if row idx = 0 \<and> col idx = 0 then 0 else dft2_sum (- 1) phi idx)"
proof (cases "row idx = 0 \<and> col idx = 0")
  case True
  from kottler_body_dataflow [OF run] have
    ph: "setitem (v_f_phase_76 L) (0, 0) 0 = Inr (v_f_phase L)" by blast
  show ?thesis using setitem_Inr [OF ph] True by simp
next
  case False
  from kottler_body_dataflow [OF run] have
    p76: "div_arr (v_f_num L) (v_f_den L) = Inr (v_f_phase_76 L)" and
    ph: "setitem (v_f_phase_76 L) (0, 0) 0 = Inr (v_f_phase L)"
    by blast+
  note sh = kottler_body_shapes [OF run]
  have len: "2 \<le> length (shape gy)" using sh unfolding valid_call_def by blast
  have yx: "v_y L = row (shape gy)" "v_x L = col (shape gy)" using sh by simp_all
  have sn: "shape (v_f_num L) = lead (shape gy) @ [row (shape gy), col (shape gy)]"
    and sd: "shape (v_f_den L) = [row (shape gy), col (shape gy)]"
    using sh by (simp_all add: padded_def)
  have r': "in_range idx (lead (shape gy) @ [row (shape gy), col (shape gy)])"
    using r shape_split [OF len] by simp
  then have rn: "in_range idx (shape (v_f_num L))" using sn by simp
  have k: "row idx < padded None (v_y L)" and l: "col idx < padded None (v_x L)"
    using in_range_trailing(2,3) [OF r'] by (simp_all add: padded_def yx)
  define sym where "sym = \<i> * 2 * complex_of_real pi *
            (complex_of_real (fftfreq_val (col (shape gy)) (col idx))
             + \<i> * complex_of_real (fftfreq_val (row (shape gy)) (row idx)))"
  have den: "elem (v_f_den L) [row idx, col idx] = sym"
    using kottler_body_den(1,2) [OF run k l] False
    by (simp add: sym_def kottler_body_grids(3,4) [OF run] yx padded_def)
  have nz: "sym \<noteq> 0" using kottler_body_den(3) [OF run k l] den by simp
  have num: "elem (v_f_num L) idx = sym * dft2_sum (- 1) phi idx"
    using dft2_sum_signal [OF run r] grad r False by (simp add: sym_def)
  have "elem (v_f_phase L) idx = elem (v_f_phase_76 L) idx"
    using setitem_Inr [OF ph] False by auto
  also have "\<dots> = elem (v_f_num L) idx / elem (v_f_den L) [row idx, col idx]"
    using quotient_elem [OF p76 sn sd rn] .
  also have "\<dots> = dft2_sum (- 1) phi idx"
    using nz by (simp add: num den)
  finally show ?thesis using False by auto
qed


lemma punctured_inversion:
  fixes a :: "nat \<Rightarrow> nat \<Rightarrow> complex"
  assumes m': "m' < Y" and n': "n' < X"
  shows "(\<Sum>k<Y. \<Sum>l<X.
            (if k = 0 \<and> l = 0 then 0
             else (\<Sum>m<Y. \<Sum>n<X. a m n *
               cis (- 1 * 2 * pi * (real k * real m / real Y + real l * real n / real X)))) *
            cis (1 * 2 * pi * (real m' * real k / real Y + real n' * real l / real X))) =
         of_nat (Y * X) * a m' n' - (\<Sum>m<Y. \<Sum>n<X. a m n)"
proof -
  define f where "f k l =
      (\<Sum>m<Y. \<Sum>n<X. a m n *
         cis (- 1 * 2 * pi * (real k * real m / real Y + real l * real n / real X))) *
      cis (1 * 2 * pi * (real m' * real k / real Y + real n' * real l / real X))" for k l
  have Y: "0 < Y" and X: "0 < X" using m' n' by simp_all
  have "(\<Sum>k<Y. \<Sum>l<X.
            (if k = 0 \<and> l = 0 then 0
             else (\<Sum>m<Y. \<Sum>n<X. a m n *
               cis (- 1 * 2 * pi * (real k * real m / real Y + real l * real n / real X)))) *
            cis (1 * 2 * pi * (real m' * real k / real Y + real n' * real l / real X))) =
        (\<Sum>k<Y. \<Sum>l<X. (if k = 0 \<and> l = 0 then 0 else f k l))"
    by (intro sum.cong refl) (simp add: f_def)
  also have "\<dots> = (\<Sum>k<Y. \<Sum>l<X. f k l) - f 0 0"
    using Y X by (rule sum_without_origin)
  also have "(\<Sum>k<Y. \<Sum>l<X. f k l) = of_nat (Y * X) * a m' n'"
    unfolding f_def using m' n' by (rule dft2_inversion)
  also have "f 0 0 = (\<Sum>m<Y. \<Sum>n<X. a m n)"
    by (simp add: f_def)
  finally show ?thesis .
qed

lemma kottler_spectral_roundtrip:
  assumes valid: "valid_call gy gx None"
    and sphi: "shape phi = shape gy"
    and real: "\<forall>idx. in_range idx (shape gy) \<longrightarrow> Im (elem phi idx) = 0"
    and grad: "\<forall>idx. in_range idx (shape gy) \<and> \<not> (row idx = 0 \<and> col idx = 0) \<longrightarrow>
        dft2_sum (- 1) (complex_signal gy gx) idx =
          \<i> * 2 * complex_of_real pi *
            (complex_of_real (fftfreq_val (col (shape gy)) (col idx))
             + \<i> * complex_of_real (fftfreq_val (row (shape gy)) (row idx))) *
          dft2_sum (- 1) phi idx"
  shows "\<exists>res. kottler gy gx None w = Inr res \<and> shape res = shape gy \<and>
     (\<forall>idx. in_range idx (shape gy) \<longrightarrow>
        elem res idx = centred phi idx \<and> centred res idx = centred phi idx)"
proof -
  from kottler_body_total [OF valid] obtain t L where
    run: "kottler_body gy gx None w = (t, Inr L)" by blast
  from kottler_body_dataflow [OF run] obtain rr where
    rr: "backend_ifft2 (v_f_phase L) w = Inr rr" and
    res: "crop (real_part rr) (v_y L) (v_x L) = Inr (v_result L)"
    by blast
  note sh = kottler_body_shapes [OF run]
  define ld where "ld = lead (shape gy)"
  define Y where "Y = row (shape gy)"
  define X where "X = col (shape gy)"
  have len: "2 \<le> length (shape gy)" using valid unfolding valid_call_def by blast
  have sgy: "shape gy = ld @ [Y, X]"
    using shape_split [OF len] by (simp add: ld_def Y_def X_def)
  have pos: "0 < Y" "0 < X" using valid unfolding valid_call_def Y_def X_def by blast+
  have sph: "shape (v_f_phase L) = ld @ [Y, X]"
    using sh by (simp add: padded_def ld_def Y_def X_def)
  have sres: "shape (v_result L) = ld @ [Y, X]"
    using sh by (simp add: ld_def Y_def X_def)
  have sp: "shape phi = ld @ [Y, X]" using sphi sgy by simp
  have mean: "mean2 phi l' = (\<Sum>m<Y. \<Sum>n<X. elem phi (l' @ [m, n])) / of_nat (Y * X)" for l'
    by (simp add: mean2_def sp)
  have el: "elem (v_result L) idx = centred phi idx" if r: "in_range idx (shape gy)" for idx
  proof -
    have r': "in_range idx (ld @ [Y, X])" using r sgy by simp
    have m': "row idx < Y" and n': "col idx < X" using in_range_trailing(2,3) [OF r'] .
    have split: "lead idx @ [row idx, col idx] = idx"
      using shape_split [of idx] in_range_trailing(4) [OF r'] by simp
    have ph: "elem (v_f_phase L) (lead idx @ [k, l]) =
        (if k = 0 \<and> l = 0 then 0
         else (\<Sum>m<Y. \<Sum>n<X. elem phi (lead idx @ [m, n]) *
           cis (- 1 * 2 * pi * (real k * real m / real Y + real l * real n / real X))))"
      if "k < Y" "l < X" for k l
    proof -
      have "in_range (lead idx @ [k, l]) (shape gy)"
        using in_range_replace [OF r' that] sgy by simp
      from kottler_phase_is_spectrum [OF run grad this] show ?thesis
        by (simp add: dft2_sum_def Let_def sp)
    qed
    have "dft2_sum 1 (v_f_phase L) idx =
        (\<Sum>k<Y. \<Sum>l<X. elem (v_f_phase L) (lead idx @ [k, l]) *
           cis (1 * 2 * pi * (real (row idx) * real k / real Y
                               + real (col idx) * real l / real X)))"
      by (simp add: dft2_sum_def Let_def sph)
    also have "\<dots> = (\<Sum>k<Y. \<Sum>l<X.
            (if k = 0 \<and> l = 0 then 0
             else (\<Sum>m<Y. \<Sum>n<X. elem phi (lead idx @ [m, n]) *
               cis (- 1 * 2 * pi * (real k * real m / real Y + real l * real n / real X)))) *
            cis (1 * 2 * pi * (real (row idx) * real k / real Y
                               + real (col idx) * real l / real X)))"
      by (intro sum.cong refl) (simp only: ph lessThan_iff)
    also have "\<dots> = of_nat (Y * X) * elem phi (lead idx @ [row idx, col idx]) -
        (\<Sum>m<Y. \<Sum>n<X. elem phi (lead idx @ [m, n]))"
      using m' n' by (rule punctured_inversion)
    finally have d: "dft2_sum 1 (v_f_phase L) idx =
        of_nat (Y * X) * elem phi idx - (\<Sum>m<Y. \<Sum>n<X. elem phi (lead idx @ [m, n]))"
      unfolding split .
    have nz: "complex_of_nat (Y * X) \<noteq> 0" using pos by simp
    have "elem rr idx = dft2_sum 1 (v_f_phase L) idx / of_nat (Y * X)"
      using transform_Inr(2) [OF rr] by (simp add: sph)
    also have "\<dots> = elem phi idx - mean2 phi (lead idx)"
      unfolding d mean using nz by (simp add: diff_divide_distrib)
    finally have e: "elem rr idx = centred phi idx" by (simp add: centred_def)
    have "Im (\<Sum>m<Y. \<Sum>n<X. elem phi (lead idx @ [m, n])) = 0"
    proof -
      have "Im (elem phi (lead idx @ [m, n])) = 0" if "m < Y" "n < X" for m n
        using in_range_replace [OF r' that] real sgy by simp
      then show ?thesis by simp
    qed
    then have "Im (mean2 phi (lead idx)) = 0"
      unfolding mean by (simp add: Im_divide_of_nat)
    moreover have "Im (elem phi idx) = 0" using real r by simp
    ultimately have im: "Im (centred phi idx) = 0" by (simp add: centred_def)
    have "elem (v_result L) idx = complex_of_real (Re (elem rr idx))"
      using crop_Inr [OF res] by (simp add: real_part_def)
    also have "\<dots> = centred phi idx"
      using im by (simp add: e complex_eq_iff)
    finally show ?thesis .
  qed
  have ce: "centred (v_result L) idx = centred phi idx" if r: "in_range idx (shape gy)" for idx
  proof -
    have r': "in_range idx (ld @ [Y, X])" using r sgy by simp
    have inner: "elem (v_result L) (lead idx @ [m, n]) =
        elem phi (lead idx @ [m, n]) - mean2 phi (lead idx)" if "m < Y" "n < X" for m n
    proof -
      have "in_range (lead idx @ [m, n]) (shape gy)"
        using in_range_replace [OF r' that] sgy by simp
      from el [OF this] show ?thesis by (simp add: centred_def)
    qed
    have "(\<Sum>m<Y. \<Sum>n<X. elem (v_result L) (lead idx @ [m, n])) =
        (\<Sum>m<Y. \<Sum>n<X. elem phi (lead idx @ [m, n]) - mean2 phi (lead idx))"
      by (intro sum.cong refl) (simp only: inner lessThan_iff)
    also have "\<dots> = (\<Sum>m<Y. \<Sum>n<X. elem phi (lead idx @ [m, n])) -
        of_nat (Y * X) * mean2 phi (lead idx)"
      by (simp add: sum_subtractf)
    also have "\<dots> = 0" using pos by (simp add: mean)
    finally have "mean2 (v_result L) (lead idx) = 0"
      by (simp add: mean2_def sres)
    then show ?thesis using el [OF r] by (simp add: centred_def)
  qed
  have "shape (v_result L) = shape gy" using sres sgy by simp
  then show ?thesis
    using kottler_of_body [OF run] el ce by blast
qed

lemma dft2_sum_const:
  assumes k: "k < Y" and l: "l < X" and ne: "\<not> (k = 0 \<and> l = 0)"
  shows "(\<Sum>m<Y. \<Sum>n<X. c *
           cis (- 1 * 2 * pi * (real k * real m / real Y + real l * real n / real X))) = 0"
proof -
  define u where "u m = cis (2 * pi * (real 0 - real k) * real m / real Y)" for m
  define v where "v n = cis (2 * pi * (real 0 - real l) * real n / real X)" for n
  have ker: "cis (- 1 * 2 * pi * (real k * real m / real Y + real l * real n / real X)) =
      u m * v n" for m n
    unfolding u_def v_def cis_mult
    by (rule arg_cong [of _ _ cis]) (simp add: algebra_simps diff_divide_distrib)
  have "(\<Sum>m<Y. \<Sum>n<X. c *
           cis (- 1 * 2 * pi * (real k * real m / real Y + real l * real n / real X))) =
      (\<Sum>m<Y. \<Sum>n<X. c * (u m * v n))"
    by (simp only: ker)
  also have "\<dots> = c * ((\<Sum>m<Y. u m) * (\<Sum>n<X. v n))"
  proof -
    have "c * ((\<Sum>m<Y. u m) * (\<Sum>n<X. v n)) = c * (\<Sum>m<Y. \<Sum>n<X. u m * v n)"
      by (simp only: sum_product)
    also have "\<dots> = (\<Sum>m<Y. c * (\<Sum>n<X. u m * v n))"
      by (rule sum_distrib_left)
    also have "\<dots> = (\<Sum>m<Y. \<Sum>n<X. c * (u m * v n))"
      by (intro sum.cong refl sum_distrib_left)
    finally show ?thesis by (rule sym)
  qed
  also have "(\<Sum>m<Y. u m) = (if k = 0 then of_nat Y else 0)"
    unfolding u_def using k by (intro dft_kernel_sum) simp_all
  also have "(\<Sum>n<X. v n) = (if l = 0 then of_nat X else 0)"
    unfolding v_def using l by (intro dft_kernel_sum) simp_all
  finally show ?thesis using ne by auto
qed


lemma in_range_pair: "in_range idx [a, b] \<longleftrightarrow> (\<exists>k l. idx = [k, l] \<and> k < a \<and> l < b)"
  by (auto simp add: in_range_def list_all2_Cons2)

lemma quarter_turn: "cis (- (pi * (real n * real l) / 2)) = (- \<i>) ^ (l * n)"
proof -
  have "(- \<i>) ^ (l * n) = cis (- (pi / 2)) ^ (l * n)" by simp
  also have "\<dots> = cis (real (l * n) * (- (pi / 2)))" by (rule DeMoivre)
  also have "real (l * n) * (- (pi / 2)) = - (pi * (real n * real l) / 2)" by simp
  finally show ?thesis by (rule sym)
qed

lemma dft2_sum_row4:
  assumes "shape a = [1, 4]"
  shows "dft2_sum (- 1) a [0, l] = (\<Sum>n<4. elem a [0, n] * (- \<i>) ^ (l * n))"
  by (simp add: dft2_sum_def Let_def assms quarter_turn)


lemma wave_spectra:
  "dft2_sum (- 1) (complex_signal wave_gy wave_gx) [0, 1] = \<i> * complex_of_real pi"
  "dft2_sum (- 1) (complex_signal wave_gy wave_gx) [0, 2] = 0"
  "dft2_sum (- 1) (complex_signal wave_gy wave_gx) [0, 3] = - (\<i> * complex_of_real pi)"
  "dft2_sum (- 1) wave_phi [0, 1] = 2"
  "dft2_sum (- 1) wave_phi [0, 2] = 0"
  "dft2_sum (- 1) wave_phi [0, 3] = 2"
proof -
  have s1: "shape (complex_signal wave_gy wave_gx) = [1, 4]"
    by (simp add: complex_signal_def wave_gx_def)
  have s2: "shape wave_phi = [1, 4]" by (simp add: wave_phi_def)
  have four: "{..<4::nat} = {0, 1, 2, 3}" by auto
  show "dft2_sum (- 1) (complex_signal wave_gy wave_gx) [0, 1] = \<i> * complex_of_real pi"
    unfolding dft2_sum_row4 [OF s1] four
    by (simp add: complex_signal_def wave_gx_def wave_gy_def power3_eq_cube)
  show "dft2_sum (- 1) (complex_signal wave_gy wave_gx) [0, 2] = 0"
    unfolding dft2_sum_row4 [OF s1] four
    by (simp add: complex_signal_def wave_gx_def wave_gy_def eval_nat_numeral)
  show "dft2_sum (- 1) (complex_signal wave_gy wave_gx) [0, 3] = - (\<i> * complex_of_real pi)"
    unfolding dft2_sum_row4 [OF s1] four
    by (simp add: complex_signal_def wave_gx_def wave_gy_def eval_nat_numeral)
  show "dft2_sum (- 1) wave_phi [0, 1] = 2"
    unfolding dft2_sum_row4 [OF s2] four
    by (simp add: wave_phi_def eval_nat_numeral)
  show "dft2_sum (- 1) wave_phi [0, 2] = 0"
    unfolding dft2_sum_row4 [OF s2] four
    by (simp add: wave_phi_def eval_nat_numeral)
  show "dft2_sum (- 1) wave_phi [0, 3] = 2"
    unfolding dft2_sum_row4 [OF s2] four
    by (simp add: wave_phi_def eval_nat_numeral)
qed

lemma wave_index_cases:
  assumes a: "in_range idx (shape wave_gy) \<and> \<not> (row idx = 0 \<and> col idx = 0)"
  shows "\<exists>k l. idx = [k, l] \<and> k < 1 \<and> l < 4"
proof -
  have sh: "shape wave_gy = [1, 4]" by (simp add: wave_gy_def)
  from a show ?thesis unfolding sh in_range_pair by blast
qed

lemma fftfreq_val_examples: "fftfreq_val 4 1 = 1 / 4" "fftfreq_val 4 2 = - 1 / 2" "fftfreq_val 4 3 = - 1 / 4"
      "fftfreq_val 1 0 = 0"
      by (simp_all add: fftfreq_val_def)

lemma wave_gradient_at:
  assumes cases: "l = 1 \<or> l = 2 \<or> l = 3"
  shows "dft2_sum (- 1) (complex_signal wave_gy wave_gx) [0, l] =
          \<i> * 2 * complex_of_real pi *
            (complex_of_real (fftfreq_val 4 l) + \<i> * complex_of_real (fftfreq_val 1 0)) *
          dft2_sum (- 1) wave_phi [0, l]"
  using cases
proof (elim disjE)
  assume l: "l = 1"
  show ?thesis unfolding l wave_spectra(1,4) fftfreq_val_examples by simp
next
  assume l: "l = 2"
  show ?thesis unfolding l wave_spectra(2,5) fftfreq_val_examples by simp
next
  assume l: "l = 3"
  show ?thesis unfolding l wave_spectra(3,6) fftfreq_val_examples by simp
qed

lemma wave_centred: "centred wave_phi [0, 2] = - 1"
proof -
  have four: "{..<4::nat} = {0, 1, 2, 3}" by auto
  show ?thesis by (simp add: centred_def mean2_def wave_phi_def four)
qed

lemma wave_nonzero_column:
  assumes a: "in_range idx (shape wave_gy) \<and> \<not> (row idx = 0 \<and> col idx = 0)"
    and idx: "idx = [k, l]" and k: "k < 1" and l: "l < 4"
  shows "l = 1 \<or> l = 2 \<or> l = 3"
proof -
  have k0: "k = 0" using k by simp
  have "\<not> (row [k, l] = 0 \<and> col [k, l] = 0)" using a unfolding idx by blast
  then have "l \<noteq> 0" unfolding k0 by simp
  then show ?thesis using l by arith
qed

lemma wave_index_row:
  assumes idx: "idx = [k, l]" and k0: "k = (0::nat)"
  shows "idx = [0, l]" using idx k0 by simp

lemma wave_index_parts:
  assumes e: "idx = [0, l]"
  shows "col (shape wave_gy) = 4" "row (shape wave_gy) = 1" "row idx = 0" "col idx = l"
    by (simp_all add: wave_gy_def e)


lemma wave_gradient_spectral:
  assumes a: "in_range idx (shape wave_gy) \<and> \<not> (row idx = 0 \<and> col idx = 0)"
  shows "dft2_sum (- 1) (complex_signal wave_gy wave_gx) idx =
          \<i> * 2 * complex_of_real pi *
            (complex_of_real (fftfreq_val (col (shape wave_gy)) (col idx))
             + \<i> * complex_of_real (fftfreq_val (row (shape wave_gy)) (row idx))) *
          dft2_sum (- 1) wave_phi idx"
proof -
  from wave_index_cases [OF a] obtain k l where idx: "idx = [k, l]" and k: "k < 1" and l: "l < 4"
    by (elim exE conjE)
  have k0: "k = 0" using k by simp
  note e = wave_index_row [OF idx k0]
  note s = wave_index_parts [OF e]
  show ?thesis
    using wave_gradient_at [OF wave_nonzero_column [OF a idx k l]] unfolding s(1,2) e row_pair col_pair .
qed

section \<open>The claims\<close>

text \<open>
  Claim C4. Whenever the promoted dtype of \<open>gy\<close> and \<open>gx\<close> is not a real floating kind, the
  call raises \<open>ValueError("Input arrays must be real-valued.")\<close>, for every value of \<open>pad\<close>
  and \<open>workers\<close> and whatever the shapes are, and its log of collaborator and backend calls
  is empty: no padding, no frequency grid and no transform was attempted before the error.
\<close>

theorem kottler_rejects_non_real_dtype:
  "\<not> isdtype_real_floating (result_type (dtype gy) (dtype gx)) \<Longrightarrow>
   kottler_run gy gx pad workers =
     ([], Inl (ValueError ''Input arrays must be real-valued.''))"
  by (simp add: kottler_run_body kottler_body_error_dtype)

theorem kottler_rejects_non_real_dtype_witness:
  "\<not> isdtype_real_floating (result_type (dtype example_int) (dtype example_int_tall)) \<and>
   kottler_run example_int example_int_tall (Some ''antisym'') (Some 4) =
     ([], Inl (ValueError ''Input arrays must be real-valued.''))"
  using kottler_rejects_non_real_dtype
    [of example_int example_int_tall "Some ''antisym''" "Some 4"]
  by (simp add: example_int_def example_int_tall_def)

text \<open>
  Claim C9. The checks run in a fixed order: dtype, then shapes, then the pad token. When the
  promoted dtype is not real floating and \<open>check_shapes\<close> would also fail, the call raises
  the dtype error and \<open>check_shapes\<close> is never called. When the promoted dtype is real
  floating and \<open>check_shapes\<close> fails, the call raises the error of \<open>check_shapes\<close>,
  unmodified, for every value of \<open>pad\<close>, an invalid token included: the pad token is looked
  at only after the shapes.
\<close>

theorem kottler_validation_order:
  "(\<not> isdtype_real_floating (result_type (dtype gy) (dtype gx)) \<and>
      check_shapes gx gy = Inl e \<longrightarrow>
      kottler_run gy gx pad workers =
        ([], Inl (ValueError ''Input arrays must be real-valued.''))) \<and>
   (isdtype_real_floating (result_type (dtype gy) (dtype gx)) \<and>
      check_shapes gx gy = Inl e \<longrightarrow>
      kottler_run gy gx pad workers = ([EvGetDfts, EvCheckShapes], Inl e))"
  by (simp add: kottler_run_body kottler_body_error_dtype kottler_body_check_shapes_error)

theorem kottler_validation_order_witness:
  "(\<not> isdtype_real_floating (result_type (dtype example_int_tall) (dtype example_int)) \<and>
      check_shapes example_int example_int_tall = Inl ShapeError \<and>
      kottler_run example_int_tall example_int (Some ''bogus'') None =
        ([], Inl (ValueError ''Input arrays must be real-valued.''))) \<and>
   (isdtype_real_floating (result_type (dtype example_tall) (dtype example_gx)) \<and>
      check_shapes example_gx example_tall = Inl ShapeError \<and>
      kottler_run example_tall example_gx (Some ''bogus'') None =
        ([EvGetDfts, EvCheckShapes], Inl ShapeError))"
  using kottler_validation_order
    [of example_int_tall example_int ShapeError "Some ''bogus''" None]
    kottler_validation_order
    [of example_tall example_gx ShapeError "Some ''bogus''" None]
  by (simp add: example_int_def example_int_tall_def example_tall_def example_gx_def
      check_shapes_def)

text \<open>
  Claim C5, as stated, fails: the pad token is checked third, so for inputs that fail the
  dtype check an invalid token is never reported. With two integer arrays and the token
  \<open>bogus\<close> the call raises the dtype error, whose message does not name the token.
\<close>

theorem kottler_invalid_pad_masked_by_dtype_error:
  "Some ''bogus'' \<noteq> None \<and> Some ''bogus'' \<noteq> Some ''antisym'' \<and>
   kottler example_int example_int (Some ''bogus'') None =
     Inl (ValueError ''Input arrays must be real-valued.'') \<and>
   kottler example_int example_int (Some ''bogus'') None \<noteq>
     Inl (ValueError (''Invalid value for pad: '' @ ''bogus''))"
  by (simp add: kottler_def kottler_run_body kottler_body_error_dtype example_int_def)

text \<open>
  Claim C5, amended. For inputs that pass the dtype check and \<open>check_shapes\<close>, every token
  other than \<open>None\<close> and \<open>"antisym"\<close> (the empty string included) makes the call raise
  \<open>ValueError\<close> with the message \<open>Invalid value for pad: \<close> followed by the token. The log
  holds only the calls to \<open>get_dfts\<close> and \<open>check_shapes\<close>: no padding, no frequency grid and
  no transform was attempted. The inputs are values and are never altered.
\<close>

theorem kottler_rejects_invalid_pad:
  "isdtype_real_floating (result_type (dtype gy) (dtype gx)) \<Longrightarrow>
   check_shapes gx gy = Inr yx \<Longrightarrow> pad = Some s \<Longrightarrow> s \<noteq> ''antisym'' \<Longrightarrow>
   kottler_run gy gx pad workers =
     ([EvGetDfts, EvCheckShapes], Inl (ValueError (''Invalid value for pad: '' @ s)))"
  by (simp add: kottler_run_body kottler_body_invalid_pad)

theorem kottler_rejects_invalid_pad_witness:
  "isdtype_real_floating (result_type (dtype example_gy) (dtype example_gx)) \<and>
   check_shapes example_gx example_gy = Inr (2, 3) \<and>
   kottler_run example_gy example_gx (Some '''') (Some 1) =
     ([EvGetDfts, EvCheckShapes], Inl (ValueError ''Invalid value for pad: ''))"
  using kottler_rejects_invalid_pad
    [of example_gy example_gx "(2, 3)" "Some ''''" "''''" "Some 1"]
  by (simp add: example_gy_def example_gx_def check_shapes_def)

text \<open>
  Claim C3. For every valid call, in both pad modes, the call returns; the array returned
  has the real parts of the inverse transform of the phase spectrum as its elements, read
  at the same indices (the crop keeps the block that starts at index 0 of both trailing
  axes), and its shape is the shape of the inputs: the leading axes followed by the original
  \<open>(y, x)\<close>, although the transform has the padded extents.
\<close>

theorem kottler_shape_preserved:
  assumes "valid_call gy gx pad"
  shows "\<exists>t L r. kottler_body gy gx pad workers = (t, Inr L) \<and>
     kottler gy gx pad workers = Inr (v_result L) \<and>
     backend_ifft2 (v_f_phase L) workers = Inr r \<and>
     shape r = lead (shape gy) @ [padded pad (row (shape gy)), padded pad (col (shape gy))] \<and>
     shape (v_result L) = lead (shape gy) @ [row (shape gy), col (shape gy)] \<and>
     shape (v_result L) = shape gy \<and>
     (\<forall>idx. elem (v_result L) idx = complex_of_real (Re (elem r idx)))"
proof -
  from kottler_body_total [OF assms] obtain t L where
    run: "kottler_body gy gx pad workers = (t, Inr L)" by blast
  from kottler_body_dataflow [OF run] obtain r where
    r: "backend_ifft2 (v_f_phase L) workers = Inr r" and
    res: "crop (real_part r) (v_y L) (v_x L) = Inr (v_result L)"
    by blast
  note sh = kottler_body_shapes [OF run]
  have len: "2 \<le> length (shape gy)" using assms unfolding valid_call_def by blast
  have sr: "shape r = lead (shape gy) @ [padded pad (row (shape gy)), padded pad (col (shape gy))]"
    using transform_Inr(2) [OF r] sh by simp
  have s1: "shape (v_result L) = lead (shape gy) @ [row (shape gy), col (shape gy)]"
    using sh by simp
  have s2: "shape (v_result L) = shape gy"
    using s1 shape_split [OF len] by simp
  have el: "\<forall>idx. elem (v_result L) idx = complex_of_real (Re (elem r idx))"
    using crop_Inr [OF res] by (simp add: real_part_def)
  show ?thesis
    using run kottler_of_body [OF run] r sr s1 s2 el by blast
qed

theorem kottler_shape_preserved_witness:
  "valid_call example_gy example_gx (Some ''antisym'') \<and>
   valid_call example_gy example_gx None \<and>
   (\<exists>t L r. kottler_body example_gy example_gx (Some ''antisym'') None = (t, Inr L) \<and>
     kottler example_gy example_gx (Some ''antisym'') None = Inr (v_result L) \<and>
     backend_ifft2 (v_f_phase L) None = Inr r \<and>
     shape r = [4, 6] \<and> shape (v_result L) = [2, 3]) \<and>
   (\<exists>t L r. kottler_body example_gy example_gx None None = (t, Inr L) \<and>
     kottler example_gy example_gx None None = Inr (v_result L) \<and>
     backend_ifft2 (v_f_phase L) None = Inr r \<and>
     shape r = [2, 3] \<and> shape (v_result L) = [2, 3])"
proof -
  have v1: "valid_call example_gy example_gx (Some ''antisym'')"
    and v2: "valid_call example_gy example_gx None"
    by (simp_all add: valid_call_def example_gy_def example_gx_def)
  have sh: "shape example_gy = [2, 3]" by (simp add: example_gy_def)
  show ?thesis
    using v1 v2 kottler_shape_preserved [OF v1, of None] kottler_shape_preserved [OF v2, of None]
    unfolding sh by (simp add: padded_def) blast
qed

text \<open>
  Claim C2. For every valid call, in both pad modes: the denominator that enters the division
  is the one \<open>setitem\<close> returned, with 1 at the zero-frequency entry; the phase spectrum that
  enters the inverse transform is the one the second \<open>setitem\<close> returned, and in every batch
  entry its zero-frequency entry is 0, whatever the numerator is. The quotient computed
  there (the numerator itself, divided by 1) is discarded; all other entries are the
  quotients.
\<close>

theorem kottler_zero_frequency_fixed:
  assumes "valid_call gy gx pad"
  shows "\<exists>t L r. kottler_body gy gx pad workers = (t, Inr L) \<and>
     setitem (v_f_den_73 L) (0, 0) 1 = Inr (v_f_den L) \<and>
     div_arr (v_f_num L) (v_f_den L) = Inr (v_f_phase_76 L) \<and>
     setitem (v_f_phase_76 L) (0, 0) 0 = Inr (v_f_phase L) \<and>
     backend_ifft2 (v_f_phase L) workers = Inr r \<and>
     elem (v_f_den L) [0, 0] = 1 \<and>
     (\<forall>idx. row idx = 0 \<and> col idx = 0 \<longrightarrow> elem (v_f_phase L) idx = 0) \<and>
     (\<forall>idx. \<not> (row idx = 0 \<and> col idx = 0) \<longrightarrow>
        elem (v_f_phase L) idx = elem (v_f_phase_76 L) idx) \<and>
     (\<forall>idx. in_range idx (shape (v_f_phase_76 L)) \<and> row idx = 0 \<and> col idx = 0 \<longrightarrow>
        elem (v_f_phase_76 L) idx = elem (v_f_num L) idx)"
proof -
  from kottler_body_total [OF assms] obtain t L where
    run: "kottler_body gy gx pad workers = (t, Inr L)" by blast
  from kottler_body_dataflow [OF run] obtain r where
    den: "setitem (v_f_den_73 L) (0, 0) 1 = Inr (v_f_den L)" and
    p76: "div_arr (v_f_num L) (v_f_den L) = Inr (v_f_phase_76 L)" and
    ph: "setitem (v_f_phase_76 L) (0, 0) 0 = Inr (v_f_phase L)" and
    r: "backend_ifft2 (v_f_phase L) workers = Inr r"
    by blast
  note sh = kottler_body_shapes [OF run]
  have d00: "elem (v_f_den L) [0, 0] = 1"
    using setitem_Inr [OF den] by simp
  have z: "\<forall>idx. row idx = 0 \<and> col idx = 0 \<longrightarrow> elem (v_f_phase L) idx = 0"
    using setitem_Inr [OF ph] by simp
  have nz: "\<forall>idx. \<not> (row idx = 0 \<and> col idx = 0) \<longrightarrow>
        elem (v_f_phase L) idx = elem (v_f_phase_76 L) idx"
    using setitem_Inr [OF ph] by simp
  have q: "\<forall>idx. in_range idx (shape (v_f_phase_76 L)) \<and> row idx = 0 \<and> col idx = 0 \<longrightarrow>
        elem (v_f_phase_76 L) idx = elem (v_f_num L) idx"
  proof (intro allI impI)
    fix idx
    assume a: "in_range idx (shape (v_f_phase_76 L)) \<and> row idx = 0 \<and> col idx = 0"
    have sn: "shape (v_f_num L) =
        lead (shape gy) @ [padded pad (v_y L), padded pad (v_x L)]"
      and sd: "shape (v_f_den L) = [padded pad (v_y L), padded pad (v_x L)]"
      using sh by simp_all
    have "in_range idx (shape (v_f_num L))" using a sh by simp
    from quotient_elem [OF p76 sn sd this] a d00
    show "elem (v_f_phase_76 L) idx = elem (v_f_num L) idx" by simp
  qed
  show ?thesis using run den p76 ph r d00 z nz q by blast
qed

theorem kottler_zero_frequency_fixed_witness:
  "valid_call example_gy example_gx None \<and>
   valid_call example_gy example_gx (Some ''antisym'') \<and>
   (\<exists>t L. kottler_body example_gy example_gx None (Some 4) = (t, Inr L) \<and>
      elem (v_f_den L) [0, 0] = 1 \<and> elem (v_f_phase L) [0, 0] = 0) \<and>
   (\<exists>t L. kottler_body example_gy example_gx (Some ''antisym'') (Some 4) = (t, Inr L) \<and>
      elem (v_f_den L) [0, 0] = 1 \<and> elem (v_f_phase L) [0, 0] = 0)"
proof -
  have v1: "valid_call example_gy example_gx None"
    and v2: "valid_call example_gy example_gx (Some ''antisym'')"
    by (simp_all add: valid_call_def example_gy_def example_gx_def)
  have i: "row [0, 0] = 0 \<and> col [0, 0] = 0" by simp
  show ?thesis
    using v1 v2 i kottler_zero_frequency_fixed [OF v1, of "Some 4"]
      kottler_zero_frequency_fixed [OF v2, of "Some 4"]
    by blast
qed

text \<open>
  Claim C1. For every valid call, the fields that enter the kernel are the inputs themselves
  when \<open>pad\<close> is \<open>None\<close> and the fields \<open>antisym\<close> returns for the inputs otherwise; in both
  cases they agree with the inputs on the original extent. The numerator is the forward
  transform of the complex signal \<open>gx + i gy\<close> of these fields: each of its entries is the
  two-dimensional discrete Fourier sum of \<open>gx + i gy\<close> over the trailing two axes. The
  denominator built at line 73 has the entry \<open>i 2 pi (fx[l] + i fy[k])\<close> at \<open>(k, l)\<close>, the two
  one-dimensional grids being broadcast to the full two-dimensional shape; and every entry
  of the phase spectrum of line 76 is the entry of the numerator divided by the entry of
  \<open>f_den\<close> at its trailing two indices. \<open>f_den\<close> is here the variable as the division reads
  it: the array of line 73 except at the zero-frequency entry, which claim C2 is about, and
  it is nowhere zero, so each quotient is a proper division.
\<close>

theorem kottler_phase_spectrum:
  assumes "valid_call gy gx pad"
  shows "\<exists>t L g. kottler_body gy gx pad workers = (t, Inr L) \<and>
     (pad = None \<longrightarrow> v_gy L = gy \<and> v_gx L = gx) \<and>
     (pad = Some ''antisym'' \<longrightarrow> antisym gy gx = Inr (v_gy L, v_gx L)) \<and>
     (\<forall>idx. in_range idx (shape gy) \<longrightarrow>
        elem (v_gy L) idx = elem gy idx \<and> elem (v_gx L) idx = elem gx idx) \<and>
     add_arr (v_gx L) (scalar_mul \<i> (v_gy L)) = Inr g \<and>
     (\<forall>idx. in_range idx (shape g) \<longrightarrow>
        elem g idx = elem (v_gx L) idx + \<i> * elem (v_gy L) idx) \<and>
     backend_fft2 g workers = Inr (v_f_num L) \<and>
     shape (v_f_num L) =
       lead (shape gy) @ [padded pad (row (shape gy)), padded pad (col (shape gy))] \<and>
     (\<forall>idx. in_range idx (shape (v_f_num L)) \<longrightarrow>
        elem (v_f_num L) idx =
          (\<Sum>m<padded pad (row (shape gy)). \<Sum>n<padded pad (col (shape gy)).
             (elem (v_gx L) (lead idx @ [m, n]) + \<i> * elem (v_gy L) (lead idx @ [m, n])) *
             cis (- 1 * 2 * pi *
                  (real (row idx) * real m / real (padded pad (row (shape gy)))
                   + real (col idx) * real n / real (padded pad (col (shape gy))))))) \<and>
     shape (v_f_den_73 L) = [padded pad (row (shape gy)), padded pad (col (shape gy))] \<and>
     (\<forall>k l. k < padded pad (row (shape gy)) \<and> l < padded pad (col (shape gy)) \<longrightarrow>
        elem (v_f_den_73 L) [k, l] =
          \<i> * 2 * complex_of_real pi * (elem (v_fx L) [l] + \<i> * elem (v_fy L) [k, 0]) \<and>
        elem (v_fx L) [l] =
          complex_of_real (fftfreq_val (padded pad (col (shape gy))) l) \<and>
        elem (v_fy L) [k, 0] =
          complex_of_real (fftfreq_val (padded pad (row (shape gy))) k) \<and>
        elem (v_f_den L) [k, l] = (if k = 0 \<and> l = 0 then 1 else elem (v_f_den_73 L) [k, l]) \<and>
        elem (v_f_den L) [k, l] \<noteq> 0) \<and>
     div_arr (v_f_num L) (v_f_den L) = Inr (v_f_phase_76 L) \<and>
     shape (v_f_phase_76 L) = shape (v_f_num L) \<and>
     (\<forall>idx. in_range idx (shape (v_f_num L)) \<longrightarrow>
        row idx < padded pad (row (shape gy)) \<and> col idx < padded pad (col (shape gy)) \<and>
        elem (v_f_phase_76 L) idx = elem (v_f_num L) idx / elem (v_f_den L) [row idx, col idx])"
proof -
  from kottler_body_total [OF assms] obtain t L where
    run: "kottler_body gy gx pad workers = (t, Inr L)" by blast
  from kottler_body_dataflow [OF run] obtain g where
    g: "add_arr (v_gx L) (scalar_mul \<i> (v_gy L)) = Inr g" and
    fnum: "backend_fft2 g workers = Inr (v_f_num L)" and
    p76: "div_arr (v_f_num L) (v_f_den L) = Inr (v_f_phase_76 L)"
    by blast
  note sh = kottler_body_shapes [OF run]
  note fl = kottler_body_fields [OF run]
  have yx: "v_y L = row (shape gy)" "v_x L = col (shape gy)" using sh by simp_all
  have same: "shape (v_gy L) = shape (v_gx L)" using sh by simp
  have sg: "shape g = shape (v_gx L)"
    using transform_Inr(1) [OF fnum] sh by simp
  have blk: "\<forall>idx. in_range idx (shape gy) \<longrightarrow>
        elem (v_gy L) idx = elem gy idx \<and> elem (v_gx L) idx = elem gx idx"
    using fl(3) by blast
  have ge: "\<forall>idx. in_range idx (shape g) \<longrightarrow>
        elem g idx = elem (v_gx L) idx + \<i> * elem (v_gy L) idx"
    using complex_signal_elem [OF g same] sg by simp
  have sn: "shape (v_f_num L) =
        lead (shape gy) @ [padded pad (row (shape gy)), padded pad (col (shape gy))]"
    and sd: "shape (v_f_den L) = [padded pad (row (shape gy)), padded pad (col (shape gy))]"
    and s73: "shape (v_f_den_73 L) = [padded pad (row (shape gy)), padded pad (col (shape gy))]"
    and s76: "shape (v_f_phase_76 L) = shape (v_f_num L)"
    using sh by simp_all
  have fn: "\<forall>idx. in_range idx (shape (v_f_num L)) \<longrightarrow>
        elem (v_f_num L) idx =
          (\<Sum>m<padded pad (row (shape gy)). \<Sum>n<padded pad (col (shape gy)).
             (elem (v_gx L) (lead idx @ [m, n]) + \<i> * elem (v_gy L) (lead idx @ [m, n])) *
             cis (- 1 * 2 * pi *
                  (real (row idx) * real m / real (padded pad (row (shape gy)))
                   + real (col idx) * real n / real (padded pad (col (shape gy))))))"
    using kottler_body_f_num [OF run] unfolding yx by blast
  have dn: "\<forall>k l. k < padded pad (row (shape gy)) \<and> l < padded pad (col (shape gy)) \<longrightarrow>
        elem (v_f_den_73 L) [k, l] =
          \<i> * 2 * complex_of_real pi * (elem (v_fx L) [l] + \<i> * elem (v_fy L) [k, 0]) \<and>
        elem (v_fx L) [l] =
          complex_of_real (fftfreq_val (padded pad (col (shape gy))) l) \<and>
        elem (v_fy L) [k, 0] =
          complex_of_real (fftfreq_val (padded pad (row (shape gy))) k) \<and>
        elem (v_f_den L) [k, l] = (if k = 0 \<and> l = 0 then 1 else elem (v_f_den_73 L) [k, l]) \<and>
        elem (v_f_den L) [k, l] \<noteq> 0"
  proof (intro allI impI)
    fix k l
    assume kl: "k < padded pad (row (shape gy)) \<and> l < padded pad (col (shape gy))"
    then have k: "k < padded pad (v_y L)" and l: "l < padded pad (v_x L)"
      by (simp_all add: yx)
    have gx: "elem (v_fx L) [l] = complex_of_real (fftfreq_val (padded pad (col (shape gy))) l)"
      and gy: "elem (v_fy L) [k, 0] =
          complex_of_real (fftfreq_val (padded pad (row (shape gy))) k)"
      by (simp_all add: kottler_body_grids(3,4) [OF run] yx)
    show "elem (v_f_den_73 L) [k, l] =
          \<i> * 2 * complex_of_real pi * (elem (v_fx L) [l] + \<i> * elem (v_fy L) [k, 0]) \<and>
        elem (v_fx L) [l] =
          complex_of_real (fftfreq_val (padded pad (col (shape gy))) l) \<and>
        elem (v_fy L) [k, 0] =
          complex_of_real (fftfreq_val (padded pad (row (shape gy))) k) \<and>
        elem (v_f_den L) [k, l] = (if k = 0 \<and> l = 0 then 1 else elem (v_f_den_73 L) [k, l]) \<and>
        elem (v_f_den L) [k, l] \<noteq> 0"
      using kottler_body_den [OF run k l] gx gy by blast
  qed
  have q: "\<forall>idx. in_range idx (shape (v_f_num L)) \<longrightarrow>
        row idx < padded pad (row (shape gy)) \<and> col idx < padded pad (col (shape gy)) \<and>
        elem (v_f_phase_76 L) idx = elem (v_f_num L) idx / elem (v_f_den L) [row idx, col idx]"
  proof (intro allI impI)
    fix idx
    assume a: "in_range idx (shape (v_f_num L))"
    then have b: "in_range idx
        (lead (shape gy) @ [padded pad (row (shape gy)), padded pad (col (shape gy))])"
      using sn by simp
    show "row idx < padded pad (row (shape gy)) \<and> col idx < padded pad (col (shape gy)) \<and>
        elem (v_f_phase_76 L) idx = elem (v_f_num L) idx / elem (v_f_den L) [row idx, col idx]"
      using quotient_elem [OF p76 sn sd a] in_range_trailing(2,3) [OF b] by simp
  qed
  show ?thesis using run fl(1,2) blk g ge fnum sn fn s73 dn p76 s76 q by blast
qed

theorem kottler_phase_spectrum_witness:
  "valid_call example_gy example_gx (Some ''antisym'') \<and>
   valid_call example_gy example_gx None \<and>
   (\<exists>t L g. kottler_body example_gy example_gx (Some ''antisym'') None = (t, Inr L) \<and>
      antisym example_gy example_gx = Inr (v_gy L, v_gx L) \<and>
      add_arr (v_gx L) (scalar_mul \<i> (v_gy L)) = Inr g \<and>
      backend_fft2 g None = Inr (v_f_num L) \<and>
      shape (v_f_den_73 L) = [4, 6] \<and>
      elem (v_f_den_73 L) [1, 2] =
        \<i> * 2 * complex_of_real pi * (elem (v_fx L) [2] + \<i> * elem (v_fy L) [1, 0]) \<and>
      elem (v_f_den L) [1, 2] = elem (v_f_den_73 L) [1, 2] \<and>
      elem (v_f_den L) [1, 2] \<noteq> 0 \<and>
      div_arr (v_f_num L) (v_f_den L) = Inr (v_f_phase_76 L)) \<and>
   (\<exists>t L g. kottler_body example_gy example_gx None None = (t, Inr L) \<and>
      v_gy L = example_gy \<and> v_gx L = example_gx \<and>
      add_arr example_gx (scalar_mul \<i> example_gy) = Inr g \<and>
      backend_fft2 g None = Inr (v_f_num L) \<and>
      shape (v_f_num L) = [2, 3] \<and>
      div_arr (v_f_num L) (v_f_den L) = Inr (v_f_phase_76 L))"
proof -
  have v: "valid_call example_gy example_gx (Some ''antisym'')"
    and v2: "valid_call example_gy example_gx None"
    by (simp_all add: valid_call_def example_gy_def example_gx_def)
  have sh: "shape example_gy = [2, 3]" by (simp add: example_gy_def)
  from kottler_phase_spectrum [OF v, of None] obtain t L g where
    a: "kottler_body example_gy example_gx (Some ''antisym'') None = (t, Inr L)"
      "antisym example_gy example_gx = Inr (v_gy L, v_gx L)"
      "add_arr (v_gx L) (scalar_mul \<i> (v_gy L)) = Inr g"
      "backend_fft2 g None = Inr (v_f_num L)"
      "shape (v_f_den_73 L) = [4, 6]"
      "div_arr (v_f_num L) (v_f_den L) = Inr (v_f_phase_76 L)" and
    b: "\<forall>k l. k < 4 \<and> l < 6 \<longrightarrow>
        elem (v_f_den_73 L) [k, l] =
          \<i> * 2 * complex_of_real pi * (elem (v_fx L) [l] + \<i> * elem (v_fy L) [k, 0]) \<and>
        elem (v_fx L) [l] = complex_of_real (fftfreq_val 6 l) \<and>
        elem (v_fy L) [k, 0] = complex_of_real (fftfreq_val 4 k) \<and>
        elem (v_f_den L) [k, l] = (if k = 0 \<and> l = 0 then 1 else elem (v_f_den_73 L) [k, l]) \<and>
        elem (v_f_den L) [k, l] \<noteq> 0"
    unfolding sh by (simp add: padded_def) blast
  have k: "(1::nat) < 4 \<and> (2::nat) < 6" by simp
  have ne: "\<not> ((1::nat) = 0 \<and> (2::nat) = 0)" by simp
  from b k have c:
    "elem (v_f_den_73 L) [1, 2] =
        \<i> * 2 * complex_of_real pi * (elem (v_fx L) [2] + \<i> * elem (v_fy L) [1, 0]) \<and>
     elem (v_f_den L) [1, 2] =
        (if (1::nat) = 0 \<and> (2::nat) = 0 then 1 else elem (v_f_den_73 L) [1, 2]) \<and>
     elem (v_f_den L) [1, 2] \<noteq> 0"
    by blast
  have d: "elem (v_f_den L) [1, 2] = elem (v_f_den_73 L) [1, 2]"
    using c unfolding if_not_P [OF ne] by blast
  have first: "\<exists>t L g. kottler_body example_gy example_gx (Some ''antisym'') None = (t, Inr L) \<and>
      antisym example_gy example_gx = Inr (v_gy L, v_gx L) \<and>
      add_arr (v_gx L) (scalar_mul \<i> (v_gy L)) = Inr g \<and>
      backend_fft2 g None = Inr (v_f_num L) \<and>
      shape (v_f_den_73 L) = [4, 6] \<and>
      elem (v_f_den_73 L) [1, 2] =
        \<i> * 2 * complex_of_real pi * (elem (v_fx L) [2] + \<i> * elem (v_fy L) [1, 0]) \<and>
      elem (v_f_den L) [1, 2] = elem (v_f_den_73 L) [1, 2] \<and>
      elem (v_f_den L) [1, 2] \<noteq> 0 \<and>
      div_arr (v_f_num L) (v_f_den L) = Inr (v_f_phase_76 L)"
    using a c d by blast
  from kottler_phase_spectrum [OF v2, of None] obtain t' L' g' where
    a': "kottler_body example_gy example_gx None None = (t', Inr L')"
      "(None :: string option) = None \<longrightarrow> v_gy L' = example_gy \<and> v_gx L' = example_gx"
      "add_arr (v_gx L') (scalar_mul \<i> (v_gy L')) = Inr g'"
      "backend_fft2 g' None = Inr (v_f_num L')"
      "shape (v_f_num L') = lead (shape example_gy) @
         [padded None (row (shape example_gy)), padded None (col (shape example_gy))]"
      "div_arr (v_f_num L') (v_f_den L') = Inr (v_f_phase_76 L')"
    by blast
  have e': "v_gy L' = example_gy" "v_gx L' = example_gx" using a'(2) by simp_all
  have s': "shape (v_f_num L') = [2, 3]" using a'(5) unfolding sh by (simp add: padded_def)
  have second: "\<exists>t L g. kottler_body example_gy example_gx None None = (t, Inr L) \<and>
      v_gy L = example_gy \<and> v_gx L = example_gx \<and>
      add_arr example_gx (scalar_mul \<i> example_gy) = Inr g \<and>
      backend_fft2 g None = Inr (v_f_num L) \<and>
      shape (v_f_num L) = [2, 3] \<and>
      div_arr (v_f_num L) (v_f_den L) = Inr (v_f_phase_76 L)"
    using a'(1,4,6) a'(3) [unfolded e'] e' s' by blast
  show ?thesis using v v2 first second by blast
qed

text \<open>
  Claim C6. On every call that returns (by \<open>kottler_returns_iff\<close> these are the valid
  calls), \<open>fx\<close> is a row whose length is the width the transform works
  on and \<open>fy\<close> is a column whose length is the height the transform works on: \<open>2x\<close> and
  \<open>2y\<close> when the pad stage was called, \<open>x\<close> and \<open>y\<close> otherwise. Both carry the promoted
  dtype, which is real floating. Both are the standard sample frequencies: the entry at
  index 0 is 0, and the entry at index \<open>k\<close> of a grid of length \<open>n\<close> is the one value in
  \<open>[-1/2, 1/2)\<close> that differs from \<open>k / n\<close> by an integer.
\<close>

theorem kottler_frequency_grids:
  assumes "valid_call gy gx pad"
  shows "\<exists>t L. kottler_body gy gx pad workers = (t, Inr L) \<and>
     (EvAntisym \<in> set t \<longleftrightarrow> pad = Some ''antisym'') \<and>
     shape (v_f_num L) =
       lead (shape gy) @ [padded pad (row (shape gy)), padded pad (col (shape gy))] \<and>
     shape (v_fx L) = [padded pad (col (shape gy))] \<and>
     shape (v_fy L) = [padded pad (row (shape gy)), 1] \<and>
     dtype (v_fx L) = result_type (dtype gy) (dtype gx) \<and>
     dtype (v_fy L) = result_type (dtype gy) (dtype gx) \<and>
     isdtype_real_floating (result_type (dtype gy) (dtype gx)) \<and>
     elem (v_fx L) [0] = 0 \<and> elem (v_fy L) [0, 0] = 0 \<and>
     (\<forall>l < padded pad (col (shape gy)). \<exists>f.
        elem (v_fx L) [l] = complex_of_real f \<and> - 1 / 2 \<le> f \<and> f < 1 / 2 \<and>
        (real (padded pad (col (shape gy))) * f = real l \<or>
         real (padded pad (col (shape gy))) * f = real l - real (padded pad (col (shape gy))))) \<and>
     (\<forall>k < padded pad (row (shape gy)). \<exists>f.
        elem (v_fy L) [k, 0] = complex_of_real f \<and> - 1 / 2 \<le> f \<and> f < 1 / 2 \<and>
        (real (padded pad (row (shape gy))) * f = real k \<or>
         real (padded pad (row (shape gy))) * f = real k - real (padded pad (row (shape gy)))))"
proof -
  from kottler_body_total [OF assms] obtain t L where
    run: "kottler_body gy gx pad workers = (t, Inr L)" by blast
  note sh = kottler_body_shapes [OF run]
  note gr = kottler_body_grids [OF run]
  have yx: "v_y L = row (shape gy)" "v_x L = col (shape gy)" using sh by simp_all
  have pos: "0 < padded pad (row (shape gy))" "0 < padded pad (col (shape gy))"
    using assms by (auto simp add: valid_call_def padded_def)
  have lg: "EvAntisym \<in> set t \<longleftrightarrow> pad = Some ''antisym''"
    unfolding kottler_body_log [OF run] by simp
  have s1: "shape (v_f_num L) =
       lead (shape gy) @ [padded pad (row (shape gy)), padded pad (col (shape gy))]"
    and s2: "shape (v_fx L) = [padded pad (col (shape gy))]"
    and s3: "shape (v_fy L) = [padded pad (row (shape gy)), 1]"
    using sh by simp_all
  have rf: "isdtype_real_floating (result_type (dtype gy) (dtype gx))"
    using assms by (simp add: valid_call_def)
  have z: "elem (v_fx L) [0] = 0" "elem (v_fy L) [0, 0] = 0"
    using pos by (simp_all add: gr(3,4) yx fftfreq_val_zero_iff)
  have fx: "\<forall>l < padded pad (col (shape gy)). \<exists>f.
        elem (v_fx L) [l] = complex_of_real f \<and> - 1 / 2 \<le> f \<and> f < 1 / 2 \<and>
        (real (padded pad (col (shape gy))) * f = real l \<or>
         real (padded pad (col (shape gy))) * f = real l - real (padded pad (col (shape gy))))"
  proof (intro allI impI)
    fix l assume l: "l < padded pad (col (shape gy))"
    have "elem (v_fx L) [l] = complex_of_real (fftfreq_val (padded pad (col (shape gy))) l)"
      by (simp add: gr(3) yx)
    with fftfreq_val_standard [OF l]
    show "\<exists>f. elem (v_fx L) [l] = complex_of_real f \<and> - 1 / 2 \<le> f \<and> f < 1 / 2 \<and>
        (real (padded pad (col (shape gy))) * f = real l \<or>
         real (padded pad (col (shape gy))) * f = real l - real (padded pad (col (shape gy))))"
      by blast
  qed
  have fy: "\<forall>k < padded pad (row (shape gy)). \<exists>f.
        elem (v_fy L) [k, 0] = complex_of_real f \<and> - 1 / 2 \<le> f \<and> f < 1 / 2 \<and>
        (real (padded pad (row (shape gy))) * f = real k \<or>
         real (padded pad (row (shape gy))) * f = real k - real (padded pad (row (shape gy))))"
  proof (intro allI impI)
    fix k assume k: "k < padded pad (row (shape gy))"
    have "elem (v_fy L) [k, 0] = complex_of_real (fftfreq_val (padded pad (row (shape gy))) k)"
      by (simp add: gr(4) yx)
    with fftfreq_val_standard [OF k]
    show "\<exists>f. elem (v_fy L) [k, 0] = complex_of_real f \<and> - 1 / 2 \<le> f \<and> f < 1 / 2 \<and>
        (real (padded pad (row (shape gy))) * f = real k \<or>
         real (padded pad (row (shape gy))) * f = real k - real (padded pad (row (shape gy))))"
      by blast
  qed
  show ?thesis
    using run lg s1 s2 s3 gr(1,2) rf z fx fy by blast
qed

theorem kottler_frequency_grids_witness:
  "valid_call example_gy example_gx (Some ''antisym'') \<and>
   valid_call example_gy example_gx None \<and>
   (\<exists>t L. kottler_body example_gy example_gx (Some ''antisym'') None = (t, Inr L) \<and>
      EvAntisym \<in> set t \<and>
      shape (v_f_num L) = [4, 6] \<and> shape (v_fx L) = [6] \<and> shape (v_fy L) = [4, 1] \<and>
      dtype (v_fx L) = Float 64 \<and> dtype (v_fy L) = Float 64) \<and>
   (\<exists>t L. kottler_body example_gy example_gx None None = (t, Inr L) \<and>
      EvAntisym \<notin> set t \<and>
      shape (v_f_num L) = [2, 3] \<and> shape (v_fx L) = [3] \<and> shape (v_fy L) = [2, 1] \<and>
      dtype (v_fx L) = Float 64 \<and> dtype (v_fy L) = Float 64)"
proof -
  have v1: "valid_call example_gy example_gx (Some ''antisym'')"
    and v2: "valid_call example_gy example_gx None"
    by (simp_all add: valid_call_def example_gy_def example_gx_def)
  have sh: "shape example_gy = [2, 3]" "dtype example_gy = Float 64"
    "dtype example_gx = Float 32"
    by (simp_all add: example_gy_def example_gx_def)
  show ?thesis
    using v1 v2 kottler_frequency_grids [OF v1, of None] kottler_frequency_grids [OF v2, of None]
    unfolding sh by (simp add: padded_def) blast
qed

text \<open>
  Claim C8. The operator is a function of its arguments, and the worker count does not
  enter its outcome: any two values of \<open>workers\<close> give the same log and the same result for
  the same \<open>gy\<close>, \<open>gx\<close> and \<open>pad\<close>. \<open>workers\<close> is only handed to the two transforms, which
  are modelled from the spec, where it is a parallelism hint.
\<close>

theorem kottler_workers_invariant:
  "kottler_run gy gx pad w1 = kottler_run gy gx pad w2"
  by (simp add: kottler_run_def kottler_body_workers [of gy gx pad w1 w2])

theorem kottler_workers_invariant_witness:
  "kottler_run example_gy example_gx (Some ''antisym'') None =
     kottler_run example_gy example_gx (Some ''antisym'') (Some 1) \<and>
   kottler_run example_gy example_gx (Some ''antisym'') (Some 1) =
     kottler_run example_gy example_gx (Some ''antisym'') (Some 4)"
  using kottler_workers_invariant [of example_gy example_gx "Some ''antisym''" None "Some 1"]
    kottler_workers_invariant [of example_gy example_gx "Some ''antisym''" "Some 1" "Some 4"]
  by simp

text \<open>
  Claim C10. A call reaches the construction of the frequency grids when its log holds a
  call of \<open>fftfreq\<close>. For every such call \<open>pad\<close> is \<open>None\<close> or \<open>"antisym"\<close> (every other token,
  the empty string included, has raised before), so the truth value of \<open>pad\<close> that lines 70
  and 71 test is the test \<open>pad == "antisym"\<close>; the pad stage was called exactly when \<open>pad\<close> is
  true; the length handed to \<open>fftfreq\<close> is the extent \<open>check_shapes\<close> returned, doubled
  exactly in that case; and when the call returns, the grid lengths are the trailing
  extents of the padded fields.
\<close>

theorem kottler_truthiness_is_antisym:
  assumes "EvFftfreq n \<in> set (fst (kottler_run gy gx pad workers))"
  shows "(pad = None \<or> pad = Some ''antisym'') \<and>
     (truthy pad \<longleftrightarrow> pad = Some ''antisym'') \<and>
     (EvAntisym \<in> set (fst (kottler_run gy gx pad workers)) \<longleftrightarrow> truthy pad) \<and>
     (\<exists>y x. check_shapes gx gy = Inr (y, x) \<and> (n = padded pad x \<or> n = padded pad y)) \<and>
     (\<forall>t L. kottler_body gy gx pad workers = (t, Inr L) \<longrightarrow>
        shape (v_fx L) = [col (shape (v_gx L))] \<and>
        shape (v_fy L) = [row (shape (v_gy L)), 1])"
proof -
  have a: "EvFftfreq n \<in> set (fst (kottler_body gy gx pad workers))"
    using assms by (simp add: kottler_run_log)
  from kottler_body_log_events [OF a] obtain y x where
    cs: "check_shapes gx gy = Inr (y, x)" and
    pd: "pad = None \<or> pad = Some ''antisym''" and
    n: "n = (if truthy pad then 2 * x else x) \<or> n = (if truthy pad then 2 * y else y)"
    by auto
  from pd have tr: "truthy pad \<longleftrightarrow> pad = Some ''antisym''" by auto
  have n': "n = padded pad x \<or> n = padded pad y"
    using n tr by (simp add: padded_def)
  have anti: "EvAntisym \<in> set (fst (kottler_run gy gx pad workers)) \<longleftrightarrow> truthy pad"
  proof
    assume "EvAntisym \<in> set (fst (kottler_run gy gx pad workers))"
    then have "EvAntisym \<in> set (fst (kottler_body gy gx pad workers))"
      by (simp add: kottler_run_log)
    from kottler_body_log_events [OF this] show "truthy pad" by auto
  next
    assume "truthy pad"
    then have "pad = Some ''antisym''" using tr by simp
    from kottler_body_log_antisym [OF a this]
    show "EvAntisym \<in> set (fst (kottler_run gy gx pad workers))"
      by (simp add: kottler_run_log)
  qed
  have cons: "\<forall>t L. kottler_body gy gx pad workers = (t, Inr L) \<longrightarrow>
        shape (v_fx L) = [col (shape (v_gx L))] \<and>
        shape (v_fy L) = [row (shape (v_gy L)), 1]"
  proof (intro allI impI)
    fix t L assume run: "kottler_body gy gx pad workers = (t, Inr L)"
    from kottler_body_shapes [OF run]
    show "shape (v_fx L) = [col (shape (v_gx L))] \<and>
        shape (v_fy L) = [row (shape (v_gy L)), 1]"
      by simp
  qed
  show ?thesis using pd tr anti cs n' cons by blast
qed

theorem kottler_truthiness_is_antisym_witness:
  "EvFftfreq 6 \<in> set (fst (kottler_run example_gy example_gx (Some ''antisym'') None)) \<and>
   truthy (Some ''antisym'') \<and>
   EvAntisym \<in> set (fst (kottler_run example_gy example_gx (Some ''antisym'') None)) \<and>
   check_shapes example_gx example_gy = Inr (2, 3) \<and> padded (Some ''antisym'') 3 = 6 \<and>
   EvFftfreq 3 \<in> set (fst (kottler_run example_gy example_gx None None)) \<and>
   \<not> truthy None \<and>
   EvAntisym \<notin> set (fst (kottler_run example_gy example_gx None None))"
proof -
  have v1: "valid_call example_gy example_gx (Some ''antisym'')"
    and v2: "valid_call example_gy example_gx None"
    by (simp_all add: valid_call_def example_gy_def example_gx_def)
  have cs: "check_shapes example_gx example_gy = Inr (2, 3)"
    by (simp add: check_shapes_def example_gy_def example_gx_def)
  from kottler_body_total [OF v1] obtain t1 L1 where
    r1: "kottler_body example_gy example_gx (Some ''antisym'') None = (t1, Inr L1)" by blast
  from kottler_body_total [OF v2] obtain t2 L2 where
    r2: "kottler_body example_gy example_gx None None = (t2, Inr L2)" by blast
  have x1: "v_x L1 = 3" and x2: "v_x L2 = 3"
    using kottler_body_shapes [OF r1] kottler_body_shapes [OF r2]
    by (simp_all add: example_gy_def)
  have h1: "EvFftfreq 6 \<in> set (fst (kottler_run example_gy example_gx (Some ''antisym'') None))"
    unfolding kottler_run_log r1 using kottler_body_log [OF r1] x1 by (simp add: padded_def)
  have h2: "EvFftfreq 3 \<in> set (fst (kottler_run example_gy example_gx None None))"
    unfolding kottler_run_log r2 using kottler_body_log [OF r2] x2 by (simp add: padded_def)
  show ?thesis
    using h1 h2 cs kottler_truthiness_is_antisym [OF h1] kottler_truthiness_is_antisym [OF h2]
    by (simp add: padded_def)
qed




end
